theory Spec2Isabelle
  imports Main "HOL-Library.Word"
begin

section \<open>Shared value types of the search package\<close>

type_synonym byte = "8 word"

text \<open>
  Modelled from the spec: the declaration of \<open>DocumentComment\<close> is not among the
  sources; the spec (section 3) lists its fields. The timestamp is kept as an integer
  (nanoseconds), the other fields are Go strings.
\<close>

record DocumentComment =
  ID :: string
  URL :: string
  Text :: string
  Username :: string
  Timestamp :: int

text \<open>
  Modelled from the spec: \<open>Request\<close>, \<open>ResultPage\<close>, \<open>ResultDoc\<close> and
  \<open>TokenMatch\<close> are declared outside the sources; the fields are the ones the code
  reads and writes (\<open>req.SiteID\<close>, \<open>req.Query\<close>, \<open>req.SortBy\<close>, \<open>req.Limit\<close>,
  \<open>req.From\<close>; \<open>Total\<close>, \<open>Documents\<close>; \<open>ID\<close>, \<open>Matches\<close>, \<open>PostURL\<close>;
  \<open>Start\<close>, \<open>End\<close>).
\<close>

record Request =
  SiteID :: string
  Query :: string
  SortBy :: string
  Limit :: int
  From :: int

record TokenMatch =
  Start :: "64 word"
  End :: "64 word"

record ResultDoc =
  docID :: string
  Matches :: "TokenMatch list"
  PostURL :: string

record ResultPage =
  Total :: "64 word"
  Documents :: "ResultDoc list"

text \<open>
  Errors of the package. \<open>Wrap e msg\<close> is \<open>errors.Wrap(e, msg)\<close> of pkg/errors: the
  message is prefixed, the cause is kept. \<open>External\<close> stands for an error value handed
  back by a library the package calls (the file system, bleve, the elastic client).
\<close>

datatype error =
    External string
  | EOF
  | UnknownAnalyzer string "string list"
  | IndexPathNotDir
  | BasicSecretFormat
  | SecretPrefix "string list"
  | ElasticParamsNotSet
  | SiteNotFound string
  | ElasticRespond nat string
  | IndexerClosing
  | ReadInterrupted
  | InvalidUnmarshal
  | Wrap error string


text \<open>
  What a call does: it returns a value, or it panics. A panic in the worker goroutine
  or in a caller is not an error value; it unwinds the stack.
\<close>

datatype panicValue =
    UnknownQueueType
  | SendOnClosedChannel
  | CloseOfClosedChannel
  | CannotFind string "(string \<times> string option) list"

datatype 'a outcome = Panics panicValue | Returns 'a

section \<open>Sort field validation (buffered_engine.go)\<close>

text \<open>The loop \<open>for _, e := range possible { if sortBy == e { return true } }\<close>.\<close>

primrec rangePossible :: "string \<Rightarrow> string list \<Rightarrow> bool" where
  "rangePossible sortBy [] = False"
| "rangePossible sortBy (e # es) = (if sortBy = e then True else rangePossible sortBy es)"

definition validateSortField :: "string \<Rightarrow> string list \<Rightarrow> bool" where
  "validateSortField sortBy possible =
     (case sortBy of
        [] \<Rightarrow> False
      | c # cs \<Rightarrow>
          rangePossible (if c = CHR ''-'' \<or> c = CHR ''+'' then cs else sortBy) possible)"

section \<open>The local back end (bleve adapter)\<close>

definition urlFieldName :: string where
  "urlFieldName = ''url''"

definition textFieldName :: string where
  "textFieldName = ''text''"

text \<open>
  bleve's search request, as far as \<open>bleveIndexer.Search\<close> fills it.
  \<open>NewSearchRequestOptions\<close> leaves the default order in \<open>Sort\<close>; the request's
  \<open>SortBy\<close> method replaces it by the given field names.
\<close>

record bleveSearchRequest =
  bQuery :: string
  bSize :: int
  bFrom :: int
  bExplain :: bool
  bSort :: "string list option"
  bFields :: "string list"
  bHighlight :: "string list option"

text \<open>
  A hit of bleve's search result. \<open>Fields\<close> is a \<open>map[string]interface{}\<close>: the
  association list gives each stored field its value, \<open>Some s\<close> when the value is a Go
  string and \<open>None\<close> for a value of any other dynamic type. \<open>Locations\<close> maps a field
  name to the terms found in it, each with its locations; the lists are in the order the
  \<open>range\<close> loops visit them.
\<close>

record Location =
  locStart :: "64 word"
  locEnd :: "64 word"

record DocumentMatch =
  hitID :: string
  Fields :: "(string \<times> string option) list"
  Locations :: "(string \<times> (string \<times> Location list) list) list"

record SearchResult =
  srTotal :: "64 word"
  Hits :: "DocumentMatch list"

text \<open>The type assertion \<open>r.Fields[name].(string)\<close>: the string and whether it is one.\<close>

definition fieldString :: "(string \<times> string option) list \<Rightarrow> string \<Rightarrow> string option" where
  "fieldString fs name =
     (case map_of fs name of None \<Rightarrow> None | Some None \<Rightarrow> None | Some (Some s) \<Rightarrow> Some s)"

definition convertLoc :: "Location \<Rightarrow> TokenMatch" where
  "convertLoc loc = \<lparr>Start = locStart loc, End = locEnd loc\<rparr>"

text \<open>The body of the loop over the hits, for one hit.\<close>

definition convertHit :: "DocumentMatch \<Rightarrow> ResultDoc outcome" where
  "convertHit r =
     (case fieldString (Fields r) urlFieldName of
        None \<Rightarrow> Panics (CannotFind urlFieldName (Fields r))
      | Some url \<Rightarrow>
          Returns \<lparr>docID = hitID r,
                    Matches = (case map_of (Locations r) textFieldName of
                                 None \<Rightarrow> []
                               | Some highlight \<Rightarrow> concat (map (\<lambda>(t, locs). map convertLoc locs) highlight)),
                    PostURL = url\<rparr>)"

primrec convertHits :: "DocumentMatch list \<Rightarrow> ResultDoc list \<Rightarrow> ResultDoc list outcome" where
  "convertHits [] docs = Returns docs"
| "convertHits (r # rs) docs =
     (case convertHit r of
        Panics p \<Rightarrow> Panics p
      | Returns d \<Rightarrow> convertHits rs (docs @ [d]))"

definition convertBleveSerp :: "SearchResult \<Rightarrow> ResultPage outcome" where
  "convertBleveSerp bleveResult =
     (case convertHits (Hits bleveResult) [] of
        Panics p \<Rightarrow> Panics p
      | Returns docs \<Rightarrow> Returns \<lparr>Total = srTotal bleveResult, Documents = docs\<rparr>)"

datatype logLine =
    WarnUnknownSortField string
  | InfoFound "64 word" string
  | InfoSearching
  | ErrorAddingDoc string error
  | ErrorIndexingBatch error
  | ErrorWritingLog error
  | ErrorLogExists
  | ErrorOpeningLog error
  | ErrorDeletingLog error
  | ErrorClosingLog error
  | InfoNoLog

text \<open>The request \<open>bleveIndexer.Search\<close> builds, and what it logs while building it.\<close>

definition buildSearchRequest :: "Request \<Rightarrow> bleveSearchRequest \<times> logLine list" where
  "buildSearchRequest req =
     (let bReq = \<lparr>bQuery = Query req, bSize = Limit req, bFrom = From req, bExplain = False,
                   bSort = None, bFields = [], bHighlight = None\<rparr>;
          (bReq1, logs) =
             (if validateSortField (SortBy req) [''timestamp'']
              then (bReq\<lparr>bSort := Some [SortBy req]\<rparr>, [])
              else if SortBy req \<noteq> [] then (bReq, [WarnUnknownSortField (SortBy req)])
              else (bReq, []))
      in (bReq1\<lparr>bFields := bFields bReq1 @ [urlFieldName], bHighlight := Some [textFieldName]\<rparr>, logs))"

text \<open>
  \<open>bleveIndexer.Search\<close>. The index itself is bleve's: \<open>indexSearch\<close> is what
  \<open>idx.Index.Search\<close> answers to the request.
\<close>

definition bleveSearch ::
  "(bleveSearchRequest \<Rightarrow> error + SearchResult) \<Rightarrow> Request \<Rightarrow> (error + ResultPage) outcome \<times> logLine list" where
  "bleveSearch indexSearch req =
     (let (bReq, logs) = buildSearchRequest req in
      case indexSearch bReq of
        Inl err \<Rightarrow> (Returns (Inl (Wrap err ''bleve search error'')), logs)
      | Inr serp \<Rightarrow>
          (case convertBleveSerp serp of
             Panics p \<Rightarrow> (Panics p, logs @ [InfoFound (srTotal serp) (Query req)])
           | Returns result \<Rightarrow> (Returns (Inr result), logs @ [InfoFound (srTotal serp) (Query req)])))"

section \<open>Error messages\<close>

text \<open>\<open>%v\<close> of a \<open>[]string\<close>: the elements between brackets, one space apart.\<close>

fun joinWords :: "string list \<Rightarrow> string" where
  "joinWords [] = []"
| "joinWords [w] = w"
| "joinWords (w # ws) = w @ '' '' @ joinWords ws"

definition showStrings :: "string list \<Rightarrow> string" where
  "showStrings ws = ''['' @ joinWords ws @ '']''"

text \<open>\<open>%d\<close> of a number that is not negative: its decimal digits.\<close>

fun showNat :: "nat \<Rightarrow> string" where
  "showNat n =
     (if n < 10 then [char_of (48 + n)] else showNat (n div 10) @ [char_of (48 + n mod 10)])"

declare showNat.simps [simp del]

text \<open>
  \<open>err.Error()\<close>, from the format strings of the sources. \<open>%q\<close> is written as the
  string between double quotes, which is what Go prints for a string of printable
  characters without quote or backslash.
\<close>

fun errorString :: "error \<Rightarrow> string" where
  "errorString (External msg) = msg"
| "errorString EOF = ''EOF''"
| "errorString (UnknownAnalyzer a as) =
     ''Unknown analyzer: '' @ [CHR 0x22] @ a @ [CHR 0x22]
       @ ''. Available analyzers for bleve: '' @ showStrings as"
| "errorString IndexPathNotDir = ''index path shoule be a directory''"
| "errorString BasicSecretFormat =
     ''secret for basic auth sould have format '' @ [CHR 0x27] @ ''basic:user:pass'' @ [CHR 0x27]"
| "errorString (SecretPrefix allowed) =
     ''secret should starts with one of prefixes: '' @ showStrings allowed"
| "errorString ElasticParamsNotSet = ''elasticsearch parameters are not set''"
| "errorString (SiteNotFound siteID) = ''index for site '' @ siteID @ '' does not found''"
| "errorString (ElasticRespond code body) =
     ''elastic respond an error '' @ showNat code @ '': '' @ body"
| "errorString IndexerClosing = ''indexer closing''"
| "errorString ReadInterrupted = ''reading ahead log interrupted''"
| "errorString InvalidUnmarshal = ''json: Unmarshal(nil *search.DocumentComment)''"
| "errorString (Wrap e msg) = msg @ '': '' @ errorString e"

section \<open>The remote back end (elastic client)\<close>

subsection \<open>Go's strings package, as far as \<open>parseSecret\<close> uses it\<close>

definition HasPrefix :: "string \<Rightarrow> string \<Rightarrow> bool" where
  "HasPrefix s pre = (length pre \<le> length s \<and> take (length pre) s = pre)"

definition TrimPrefix :: "string \<Rightarrow> string \<Rightarrow> string" where
  "TrimPrefix s pre = (if HasPrefix s pre then drop (length pre) s else s)"

text \<open>
  \<open>strings.Split(s, sep)\<close> for a separator of one byte (the sources split at \<open>":"\<close>):
  the pieces between the separators, one more than there are separators; the empty
  string gives one empty piece.
\<close>

primrec Split :: "string \<Rightarrow> char \<Rightarrow> string list" where
  "Split [] sep = [[]]"
| "Split (c # cs) sep =
     (if c = sep then [] # Split cs sep
      else (case Split cs sep of [] \<Rightarrow> [[c]] | w # ws \<Rightarrow> (c # w) # ws))"

subsection \<open>Secrets and construction\<close>

text \<open>The fields of \<open>elasticsearch.Config\<close> the constructor sets.\<close>

record Config =
  Addresses :: "string list"
  cfgUsername :: string
  Password :: string
  APIKey :: string

text \<open>\<open>parseSecret\<close> writes through the pointer \<open>cfg\<close>: the model returns the error and
  the configuration as it is afterwards.\<close>

definition parseSecret :: "string \<Rightarrow> Config \<Rightarrow> error option \<times> Config" where
  "parseSecret secret cfg =
     (if HasPrefix secret ''basic:'' then
        (let userpass = Split (TrimPrefix secret ''basic:'') CHR '':'' in
         if length userpass \<noteq> 2 then (Some BasicSecretFormat, cfg)
         else (None, cfg\<lparr>cfgUsername := userpass ! 0, Password := userpass ! 1\<rparr>))
      else if HasPrefix secret ''token:'' then
        (None, cfg\<lparr>APIKey := TrimPrefix secret ''token:''\<rparr>)
      else (let allowed = [''basic:'', ''token:''] in (Some (SecretPrefix allowed), cfg)))"

text \<open>
  Modelled from the spec: \<open>SearcherParams\<close> is declared outside the sources; the factory's
  inputs are \<open>{Type, Endpoint, Secret, IndexPath, Analyzer, Sites}\<close> (spec 4.6).
\<close>

record SearcherParams =
  Type :: string
  Endpoint :: string
  Secret :: string
  IndexPath :: string
  Analyzer :: string
  Sites :: "string list"

text \<open>
  An item of a bulk indexer and the indexer itself: the items added to it so far. The
  failure callback of an item only logs and is left out.
\<close>

record BulkIndexerItem =
  Action :: string
  DocumentID :: string
  Body :: "byte list option"

type_synonym BulkIndexer = "BulkIndexerItem list"

text \<open>The remote service: its client (the configuration it was built from), one bulk
  indexer per site, and whether the shared context has been cancelled.\<close>

record elastic =
  client :: Config
  bulkIndexers :: "string \<rightharpoonup> BulkIndexer"
  ctxDone :: bool

text \<open>
  The client library, which is not part of the repository: \<open>elasticsearch.NewClient\<close>
  (fails or accepts the configuration) and \<open>esutil.NewBulkIndexer\<close> for the index of a
  site (fails or gives an empty indexer).
\<close>

record elasticLib =
  NewClient :: "Config \<Rightarrow> error option"
  NewBulkIndexer :: "string \<Rightarrow> error option"

text \<open>The loop \<open>for _, siteID := range params.Sites\<close> of the constructor.\<close>

primrec makeBulkIndexers ::
  "elasticLib \<Rightarrow> string list \<Rightarrow> (string \<rightharpoonup> BulkIndexer) \<Rightarrow> error + (string \<rightharpoonup> BulkIndexer)" where
  "makeBulkIndexers lib [] bis = Inr bis"
| "makeBulkIndexers lib (siteID # sites) bis =
     (case NewBulkIndexer lib siteID of
        Some err \<Rightarrow> Inl err
      | None \<Rightarrow> makeBulkIndexers lib sites (bis(siteID \<mapsto> [])))"

definition newElasticService :: "elasticLib \<Rightarrow> SearcherParams \<Rightarrow> error + elastic" where
  "newElasticService lib params =
     (if Endpoint params = [] \<or> Secret params = [] then Inl ElasticParamsNotSet
      else
        (let cfg = \<lparr>Addresses = [Endpoint params], cfgUsername = [], Password = [], APIKey = []\<rparr> in
         case parseSecret (Secret params) cfg of
           (Some err, cfg1) \<Rightarrow> Inl err
         | (None, cfg1) \<Rightarrow>
             (case NewClient lib cfg1 of
                Some err \<Rightarrow> Inl err
              | None \<Rightarrow>
                  (case makeBulkIndexers lib (Sites params) Map.empty of
                     Inl err \<Rightarrow> Inl err
                   | Inr bis \<Rightarrow> Inr \<lparr>client = cfg1, bulkIndexers = bis, ctxDone = False\<rparr>))))"

subsection \<open>Indexing and deleting\<close>





subsection \<open>Searching and flushing\<close>






definition elasticInit :: "elastic \<Rightarrow> error option \<times> elastic" where
  "elasticInit e = (None, e)"

definition elasticReady :: "elastic \<Rightarrow> bool" where
  "elasticReady e = True"

subsection \<open>Example values of the remote back end\<close>

definition exampleConfig :: Config where
  "exampleConfig = \<lparr>Addresses = [''http://es:9200''], cfgUsername = [], Password = [], APIKey = []\<rparr>"

definition exampleElasticLib :: elasticLib where
  "exampleElasticLib = \<lparr>NewClient = (\<lambda>cfg. None), NewBulkIndexer = (\<lambda>siteID. None)\<rparr>"

definition exampleParams :: "string \<Rightarrow> SearcherParams" where
  "exampleParams secret =
     \<lparr>Type = ''elastic'', Endpoint = ''http://es:9200'', Secret = secret, IndexPath = [],
      Analyzer = [], Sites = [''s1'', ''s2'']\<rparr>"


definition exampleDoc :: DocumentComment where
  "exampleDoc = \<lparr>ID = ''c1'', URL = ''http://a/post'', Text = ''hello world'',
                  Username = ''bob'', Timestamp = 1\<rparr>"


section \<open>The buffered engine (buffered_engine.go)\<close>

subsection \<open>State\<close>

text \<open>
  An entry of \<open>docQueue\<close>, a deque of \<open>interface{}\<close> values: a document, a flusher
  (identified by its completion channel, a fresh one per call of \<open>Flush\<close>), or a value
  of any other dynamic type, which the type switches answer with a panic.
\<close>

datatype queueEntry = QDoc DocumentComment | QFlusher nat | QOther

text \<open>
  The index behind the \<open>searchEngine\<close> interface, as the engine sees it: the calls of
  \<open>Batch\<close> made so far, each with the documents of the batch and the error it returned
  (a batch is committed when that is \<open>None\<close>), and whether \<open>Close\<close> has been called.
\<close>

record indexState =
  batchCalls :: "(DocumentComment list \<times> error option) list"
  idxClosed :: bool

definition committedDocs :: "indexState \<Rightarrow> DocumentComment list" where
  "committedDocs ix = concat (map fst (filter (\<lambda>c. snd c = None) (batchCalls ix)))"

text \<open>
  The engine. \<open>queueNotifier\<close> holds the values of the sends on the unbuffered channel
  that the worker has not received yet, \<open>notifierClosed\<close> whether the channel is closed.
  \<open>flusherNotified\<close> gives, for a flusher, the value sent on its completion channel
  (what its call of \<open>Flush\<close> returns), \<open>nextFlusher\<close> is the next fresh channel.
  \<open>tmrResets\<close> counts the resets of the worker's timer, \<open>workerDone\<close> says that the
  worker goroutine has ended, \<open>engineLog\<close> is what has been logged.
\<close>

record bufferedEngine =
  docQueue :: "queueEntry list"
  queueNotifier :: "bool list"
  notifierClosed :: bool
  index :: indexState
  flushEvery :: int
  flushCount :: int
  indexPath :: string
  flusherNotified :: "nat \<rightharpoonup> error option"
  nextFlusher :: nat
  tmrResets :: nat
  workerDone :: bool
  engineLog :: "logLine list"

subsection \<open>Accepting documents and flushing\<close>

text \<open>
  \<open>IndexDocument\<close>: the document is appended under the lock, then \<open>false\<close> is sent on
  the notifier; a send on a closed channel panics. The channel is unbuffered: the send is
  pending in \<open>queueNotifier\<close> until the worker receives it, and only then does the call
  go on and return. The result is what the call returns then, \<open>nil\<close>, with the engine
  as the call leaves it while it waits.
\<close>

definition IndexDocument ::
  "bufferedEngine \<Rightarrow> DocumentComment \<Rightarrow> error option outcome \<times> bufferedEngine" where
  "IndexDocument s doc =
     (let s1 = s\<lparr>docQueue := docQueue s @ [QDoc doc]\<rparr> in
      if notifierClosed s1 then (Panics SendOnClosedChannel, s1)
      else (Returns None, s1\<lparr>queueNotifier := queueNotifier s1 @ [False]\<rparr>))"

text \<open>
  \<open>Flush\<close>, up to its last line: a new flusher is appended under the lock and \<open>true\<close>
  is sent on the notifier. The call then waits for a value on the flusher's channel and
  returns it: \<open>FlushReturn\<close> is that value, \<open>None\<close> as long as nothing was sent.
\<close>

definition FlushSend :: "bufferedEngine \<Rightarrow> nat outcome \<times> bufferedEngine" where
  "FlushSend s =
     (let flusher = nextFlusher s;
          s1 = s\<lparr>docQueue := docQueue s @ [QFlusher flusher], nextFlusher := Suc flusher\<rparr>
      in if notifierClosed s1 then (Panics SendOnClosedChannel, s1)
         else (Returns flusher, s1\<lparr>queueNotifier := queueNotifier s1 @ [True]\<rparr>))"

definition FlushReturn :: "bufferedEngine \<Rightarrow> nat \<Rightarrow> error option option" where
  "FlushReturn s flusher = flusherNotified s flusher"

subsection \<open>The worker\<close>

text \<open>
  What the back end answers during one call of \<open>indexBatch\<close>: the error of
  \<open>batch.Index(val.ID, val)\<close> for a document, and the error of \<open>s.index.Batch(batch)\<close>.
\<close>

record backendOracle =
  indexError :: "DocumentComment \<Rightarrow> error option"
  batchError :: "error option"

text \<open>The deferred sends on the flushers' channels, run when the function ends.\<close>

definition notifyFlushers ::
  "nat list \<Rightarrow> error option \<Rightarrow> (nat \<rightharpoonup> error option) \<Rightarrow> (nat \<rightharpoonup> error option)" where
  "notifyFlushers flushers v m = fold (\<lambda>f m1. m1(f \<mapsto> v)) flushers m"

text \<open>
  The loop of \<open>indexBatch\<close> over the entries that were in the queue: the batch so far,
  the flushers whose notification is deferred (last deferred first), the lines logged,
  and, when an entry of unknown type stops the loop with a panic, the entries still in
  the queue.
\<close>

fun drainQueue ::
  "(DocumentComment \<Rightarrow> error option) \<Rightarrow> queueEntry list \<Rightarrow> DocumentComment list \<Rightarrow> nat list \<Rightarrow>
     logLine list \<Rightarrow> DocumentComment list \<times> nat list \<times> logLine list \<times> queueEntry list \<times> bool" where
  "drainQueue ixErr [] batch flushers lg = (batch, flushers, lg, [], False)"
| "drainQueue ixErr (QDoc val # q) batch flushers lg =
     (case ixErr val of
        Some err \<Rightarrow> drainQueue ixErr q batch flushers (lg @ [ErrorAddingDoc (ID val) err])
      | None \<Rightarrow> drainQueue ixErr q (batch @ [val]) flushers lg)"
| "drainQueue ixErr (QFlusher val # q) batch flushers lg =
     drainQueue ixErr q batch (val # flushers) lg"
| "drainQueue ixErr (QOther # q) batch flushers lg = (batch, flushers, lg, q, True)"

definition indexBatch :: "backendOracle \<Rightarrow> bufferedEngine \<Rightarrow> unit outcome \<times> bufferedEngine" where
  "indexBatch orc s =
     (if docQueue s = [] then (Returns (), s)
      else
        (let (batch, flushers, lg, rest, panicked) =
               drainQueue (indexError orc) (docQueue s) [] [] []
         in if panicked then
              (Panics UnknownQueueType,
               s\<lparr>docQueue := rest, engineLog := engineLog s @ lg,
                 flusherNotified := notifyFlushers flushers None (flusherNotified s)\<rparr>)
            else
              (Returns (),
               s\<lparr>docQueue := rest,
                 index := (index s)\<lparr>batchCalls := batchCalls (index s) @ [(batch, batchError orc)]\<rparr>,
                 engineLog := engineLog s @ lg @
                   (case batchError orc of Some err \<Rightarrow> [ErrorIndexingBatch err] | None \<Rightarrow> []),
                 flusherNotified := notifyFlushers flushers None (flusherNotified s)\<rparr>)))"

text \<open>
  The \<open>select\<close> of the worker's loop took the timer's case, or the notifier's with the
  two values of the receive (\<open>force\<close> and \<open>cont\<close>; a closed channel gives \<open>false\<close> for
  both).
\<close>

datatype selected = TimerC | NotifierC bool bool

text \<open>One iteration of the loop of \<open>indexDocumentWorker\<close>; the result is \<open>cont\<close>.\<close>

definition workerIteration ::
  "backendOracle \<Rightarrow> selected \<Rightarrow> bufferedEngine \<Rightarrow> bool outcome \<times> bufferedEngine" where
  "workerIteration orc sel s =
     (case sel of
        TimerC \<Rightarrow>
          (case indexBatch orc s of
             (Panics p, s1) \<Rightarrow> (Panics p, s1)
           | (Returns u, s1) \<Rightarrow> (Returns True, s1\<lparr>tmrResets := Suc (tmrResets s1)\<rparr>))
      | NotifierC force cont \<Rightarrow>
          (let full = (flushCount s \<le> int (length (docQueue s))) in
           if force \<or> full then
             (case indexBatch orc s of
                (Panics p, s1) \<Rightarrow> (Panics p, s1)
              | (Returns u, s1) \<Rightarrow> (Returns cont, s1))
           else (Returns cont, s)))"

text \<open>
  The receive \<open>force, cont = <-s.queueNotifier\<close>: the value of a pending send (the
  \<open>k\<close>-th of them), or \<open>(false, false)\<close> from the closed channel; \<open>None\<close> when the
  channel is open and nobody sends, so that this case of the \<open>select\<close> cannot be taken.
\<close>

definition recvNotifier :: "nat \<Rightarrow> bufferedEngine \<Rightarrow> ((bool \<times> bool) \<times> bufferedEngine) option" where
  "recvNotifier k s =
     (if k < length (queueNotifier s) then
        Some ((queueNotifier s ! k, True),
              s\<lparr>queueNotifier := take k (queueNotifier s) @ drop (Suc k) (queueNotifier s)\<rparr>)
      else if notifierClosed s then Some ((False, False), s)
      else None)"

subsection \<open>The write-ahead log\<close>

text \<open>
  What the file system and the encoder answer during \<open>writeAheadLog\<close>: the error of
  \<open>os.Create\<close>, the error of the \<open>n\<close>-th call of \<open>f.Write\<close> (a failed write is taken
  to add nothing to the file), the error of \<open>f.Close\<close>, and \<open>json.Marshal\<close>.
\<close>

record walIO =
  createError :: "error option"
  writeError :: "nat \<Rightarrow> error option"
  closeError :: "error option"
  walMarshal :: "DocumentComment \<Rightarrow> error + byte list"

text \<open>
  The loop of \<open>writeAheadLog\<close>: the sticky \<open>err\<close>, the file written so far, the
  flushers whose notification is deferred, the number of writes made; an entry of
  unknown type ends it with a panic and leaves the rest of the queue.
\<close>

fun walLoop ::
  "walIO \<Rightarrow> queueEntry list \<Rightarrow> error option \<Rightarrow> byte list \<Rightarrow> nat list \<Rightarrow> nat \<Rightarrow>
     error option \<times> byte list \<times> nat list \<times> queueEntry list \<times> bool" where
  "walLoop io [] err file flushers n = (err, file, flushers, [], False)"
| "walLoop io (QDoc val # q) err file flushers n =
     (if err \<noteq> None then walLoop io q err file flushers n
      else
        (case walMarshal io val of
           Inl e \<Rightarrow> walLoop io q (Some e) file flushers n
         | Inr data \<Rightarrow>
             (case writeError io n of
                Some e \<Rightarrow> walLoop io q (Some e) file flushers (Suc n)
              | None \<Rightarrow> walLoop io q None (file @ data @ [0]) flushers (Suc n))))"
| "walLoop io (QFlusher val # q) err file flushers n = walLoop io q err file (val # flushers) n"
| "walLoop io (QOther # q) err file flushers n = (err, file, flushers, q, True)"

definition closeLog :: "walIO \<Rightarrow> logLine list" where
  "closeLog io = (case closeError io of Some e \<Rightarrow> [ErrorClosingLog e] | None \<Rightarrow> [])"

text \<open>
  \<open>writeAheadLog\<close>, on the engine and the file at \<open>getAheadLogPath\<close> (\<open>None\<close> when
  there is no such file).
\<close>

definition writeAheadLog ::
  "walIO \<Rightarrow> bufferedEngine \<Rightarrow> byte list option \<Rightarrow> unit outcome \<times> bufferedEngine \<times> byte list option" where
  "writeAheadLog io s wal =
     (let lg0 = (if wal \<noteq> None then [ErrorLogExists] else []) in
      case createError io of
        Some err \<Rightarrow> (Returns (), s\<lparr>engineLog := engineLog s @ lg0 @ [ErrorOpeningLog err]\<rparr>, wal)
      | None \<Rightarrow>
          (let (err, file, flushers, rest, panicked) = walLoop io (docQueue s) None [] [] 0;
               s1 = s\<lparr>docQueue := rest,
                      flusherNotified :=
                        notifyFlushers flushers (Some IndexerClosing) (flusherNotified s)\<rparr>
           in if panicked then
                (Panics UnknownQueueType,
                 s1\<lparr>engineLog := engineLog s @ lg0 @ closeLog io\<rparr>, Some file)
              else
                (Returns (),
                 s1\<lparr>engineLog := engineLog s @ lg0 @
                      (case err of Some e \<Rightarrow> [ErrorWritingLog e] | None \<Rightarrow> []) @ closeLog io\<rparr>,
                 Some file)))"

subsection \<open>Replaying the write-ahead log\<close>

text \<open>
  \<open>encoding/json\<close>, which is not part of the repository: the validity check of the
  input, and the decoding of valid input into the record a pointer points to.
  \<open>json.Unmarshal(data, v)\<close> checks the input first, then refuses a nil pointer \<open>v\<close>
  with an \<open>InvalidUnmarshalError\<close>, and decodes otherwise. The pointer is \<open>None\<close>
  when nil and \<open>Some d\<close> when it points to the record \<open>d\<close>.
\<close>

record jsonLib =
  jsonCheckValid :: "byte list \<Rightarrow> error option"
  jsonDecode :: "byte list \<Rightarrow> DocumentComment \<Rightarrow> error + DocumentComment"

definition jsonUnmarshal ::
  "jsonLib \<Rightarrow> byte list \<Rightarrow> DocumentComment option \<Rightarrow> error + DocumentComment" where
  "jsonUnmarshal lib data v =
     (case jsonCheckValid lib data of
        Some err \<Rightarrow> Inl err
      | None \<Rightarrow> (case v of None \<Rightarrow> Inl InvalidUnmarshal | Some target \<Rightarrow> jsonDecode lib data target))"

text \<open>
  \<open>reader.ReadBytes(delim)\<close> on a reader with the bytes \<open>buf\<close> left, whose stream ends
  with the error \<open>endErr\<close> (\<open>io.EOF\<close>, or a read failure): the bytes up to and with
  the first delimiter, or all bytes and the error when there is no delimiter; and the
  bytes left.
\<close>

definition ReadBytes :: "byte list \<Rightarrow> error \<Rightarrow> byte \<Rightarrow> byte list \<times> error option \<times> byte list" where
  "ReadBytes buf endErr delim =
     (case dropWhile (\<lambda>b. b \<noteq> delim) buf of
        [] \<Rightarrow> (buf, Some endErr, [])
      | b # rest \<Rightarrow> (takeWhile (\<lambda>b. b \<noteq> delim) buf @ [delim], None, rest))"

lemma ReadBytes_rest_shorter:
  "ReadBytes buf endErr delim = (data, None, rest) \<Longrightarrow> length rest < length buf"
proof -
  assume a: "ReadBytes buf endErr delim = (data, None, rest)"
  have "length (dropWhile (\<lambda>b. b \<noteq> delim) buf) \<le> length buf"
    by (rule length_dropWhile_le)
  with a show ?thesis
    by (auto simp: ReadBytes_def split: list.splits)
qed

text \<open>
  \<open>readAheadLog\<close>. \<open>cancelled k\<close> says whether \<open>ctx.Done()\<close> is closed when the
  loop starts its \<open>k\<close>-th round. The document pointer handed to \<open>json.Unmarshal\<close> is the
  nil pointer of \<open>var doc *DocumentComment\<close>.
\<close>

function readAheadLog ::
  "jsonLib \<Rightarrow> (nat \<Rightarrow> bool) \<Rightarrow> error \<Rightarrow> nat \<Rightarrow> byte list \<Rightarrow> bufferedEngine \<Rightarrow>
     error option outcome \<times> bufferedEngine" where
  "readAheadLog lib cancelled endErr k buf s =
     (if cancelled k then (Returns (Some ReadInterrupted), s)
      else
        (let r = ReadBytes buf endErr 0 in
         if fst (snd r) \<noteq> None then
           (if fst (snd r) = Some EOF then (Returns None, s) else (Returns (fst (snd r)), s))
         else
           (case jsonUnmarshal lib (butlast (fst r)) None of
              Inl err \<Rightarrow> (Returns (Some err), s)
            | Inr doc \<Rightarrow>
                (case IndexDocument s doc of
                   (Panics p, s1) \<Rightarrow> (Panics p, s1)
                 | (Returns (Some err), s1) \<Rightarrow> (Returns (Some err), s1)
                 | (Returns None, s1) \<Rightarrow>
                     readAheadLog lib cancelled endErr (Suc k) (snd (snd r)) s1))))"
  by pat_completeness auto
termination
proof (relation "measure (\<lambda>(lib, cancelled, endErr, k, buf, s). length buf)")
  show "wf (measure (\<lambda>(lib, cancelled, endErr, k, buf, s). length buf))"
    by simp
next
  fix lib :: jsonLib and cancelled :: "nat \<Rightarrow> bool" and endErr :: error and k :: nat
    and buf :: "byte list" and s :: bufferedEngine and r
  assume "r = ReadBytes buf endErr 0" and "\<not> fst (snd r) \<noteq> None"
  then have "ReadBytes buf endErr 0 = (fst r, None, snd (snd r))"
    by (metis prod.collapse)
  then have "length (snd (snd r)) < length buf"
    by (rule ReadBytes_rest_shorter)
  then show "\<And>x2 x y x2a.
       ((lib, cancelled, endErr, Suc k, snd (snd r), y), lib, cancelled, endErr, k, buf, s)
       \<in> measure (\<lambda>(lib, cancelled, endErr, k, buf, s). length buf)"
    by simp
qed

declare readAheadLog.simps [simp del]

text \<open>
  What the file system answers during \<open>Init\<close>: the error of \<open>os.Open\<close> on a file that
  exists, the error that ends the reader's stream, the errors of \<open>os.Remove\<close> and of
  \<open>f.Close\<close>, and the cancellation of the context.
\<close>

record initIO =
  openError :: "error option"
  readError :: error
  removeError :: "error option"
  initCloseError :: "error option"
  cancelled :: "nat \<Rightarrow> bool"

definition initCloseLog :: "initIO \<Rightarrow> logLine list" where
  "initCloseLog io = (case initCloseError io of Some e \<Rightarrow> [ErrorClosingLog e] | None \<Rightarrow> [])"

text \<open>\<open>Init\<close>, on the engine and the file at \<open>getAheadLogPath\<close>.\<close>

definition Init ::
  "jsonLib \<Rightarrow> initIO \<Rightarrow> bufferedEngine \<Rightarrow> byte list option \<Rightarrow>
     (bool \<times> error option) outcome \<times> bufferedEngine \<times> byte list option" where
  "Init lib io s wal =
     (case wal of
        None \<Rightarrow> (Returns (False, None), s\<lparr>engineLog := engineLog s @ [InfoNoLog]\<rparr>, wal)
      | Some content \<Rightarrow>
          (case openError io of
             Some err \<Rightarrow> (Returns (False, Some err), s, wal)
           | None \<Rightarrow>
               (case readAheadLog lib (cancelled io) (readError io) 0 content s of
                  (Panics p, s1) \<Rightarrow>
                    (Panics p, s1\<lparr>engineLog := engineLog s1 @ initCloseLog io\<rparr>, wal)
                | (Returns (Some err), s1) \<Rightarrow>
                    (Returns (True, Some err),
                     s1\<lparr>engineLog := engineLog s1 @ initCloseLog io\<rparr>, wal)
                | (Returns None, s1) \<Rightarrow>
                    (case removeError io of
                       None \<Rightarrow>
                         (Returns (True, None),
                          s1\<lparr>engineLog := engineLog s1 @ initCloseLog io\<rparr>, None)
                     | Some e \<Rightarrow>
                         (Returns (True, None),
                          s1\<lparr>engineLog := engineLog s1 @ [ErrorDeletingLog e] @ initCloseLog io\<rparr>,
                          wal)))))"

subsection \<open>Closing\<close>

text \<open>
  \<open>Close\<close>, up to the wait for the worker: the notifier is closed (closing a closed
  channel panics; the senders still waiting on it panic and are gone) and the index is
  closed, with the error \<open>idxErr\<close>, which \<open>Close\<close> returns once the worker has ended.
\<close>

definition CloseSignal :: "error option \<Rightarrow> bufferedEngine \<Rightarrow> error option outcome \<times> bufferedEngine" where
  "CloseSignal idxErr s =
     (if notifierClosed s then (Panics CloseOfClosedChannel, s)
      else (Returns idxErr,
            s\<lparr>notifierClosed := True, queueNotifier := [],
              index := (index s)\<lparr>idxClosed := True\<rparr>\<rparr>))"

section \<open>Construction of a local shard (\<open>newBleve\<close>)\<close>

text \<open>
  The analyzers of the package: the names a configuration may give, each with the name of
  bleve's analyzer (\<open>bleveStandard.Name\<close>, \<open>bleveEn.AnalyzerName\<close>,
  \<open>bleveRu.AnalyzerName\<close>).
\<close>

definition analyzerMapping :: "string \<rightharpoonup> string" where
  "analyzerMapping = [''standard'' \<mapsto> ''standard'', ''english'' \<mapsto> ''en'', ''russian'' \<mapsto> ''ru'']"

text \<open>
  \<open>for k := range m\<close> visits the keys of a Go map in an order the language leaves open.
  \<open>visit\<close> is an enumeration of strings that gives the order; the loop collects the keys
  of the map in that order.
\<close>

definition rangeKeys :: "('k \<rightharpoonup> 'v) \<Rightarrow> 'k list \<Rightarrow> 'k list" where
  "rangeKeys m visit = filter (\<lambda>k. m k \<noteq> None) visit"

text \<open>
  What lies outside the package during \<open>newBleve\<close>: \<open>os.Stat\<close> of the index path, and
  bleve's \<open>New\<close> (with the analyzer of the index mapping) and \<open>Open\<close>.
\<close>

datatype statResult = StatNotExist | StatIsDir | StatNotDir | StatError error

record bleveLib =
  osStat :: "string \<Rightarrow> statResult"
  bleveNew :: "string \<Rightarrow> string \<Rightarrow> error option"
  bleveOpen :: "string \<Rightarrow> error option"

text \<open>The engine \<open>newBleve\<close> builds, with its worker started.\<close>

definition newEngine :: "string \<Rightarrow> bufferedEngine" where
  "newEngine path =
     \<lparr>docQueue = [], queueNotifier = [], notifierClosed = False,
      index = \<lparr>batchCalls = [], idxClosed = False\<rparr>,
      flushEvery = 2 * 1000000000, flushCount = 100, indexPath = path,
      flusherNotified = Map.empty, nextFlusher = 0, tmrResets = 0, workerDone = False,
      engineLog = []\<rparr>"

definition newBleve :: "bleveLib \<Rightarrow> string list \<Rightarrow> string \<Rightarrow> string \<Rightarrow> error + bufferedEngine" where
  "newBleve lib visit path analyzer =
     (case analyzerMapping analyzer of
        None \<Rightarrow> Inl (UnknownAnalyzer analyzer (rangeKeys analyzerMapping visit))
      | Some name \<Rightarrow>
          (case osStat lib path of
             StatNotExist \<Rightarrow>
               (case bleveNew lib path name of
                  Some err \<Rightarrow> Inl (Wrap err ''cannot create/open index'')
                | None \<Rightarrow> Inr (newEngine path))
           | StatIsDir \<Rightarrow>
               (case bleveOpen lib path of
                  Some err \<Rightarrow> Inl (Wrap err ''cannot create/open index'')
                | None \<Rightarrow> Inr (newEngine path))
           | StatNotDir \<Rightarrow> Inl IndexPathNotDir
           | StatError err \<Rightarrow> Inl (Wrap err ''cannot create/open index'')))"

section \<open>Runs of one shard\<close>

text \<open>
  What happens to one shard, one step at a time: a caller's \<open>IndexDocument\<close>, a
  caller's \<open>Flush\<close> up to its wait, an iteration of the worker on the timer's case or
  on the notifier's (receiving the \<open>k\<close>-th pending send, or the closing of the channel),
  and a caller's \<open>Close\<close>. The worker events carry what the back end and the file system
  answer during the step. A step stands for the effects of the call in the order the
  code has them; the callers and the worker interleave step by step.
\<close>

datatype event =
    CallIndexDocument DocumentComment
  | CallFlush
  | WorkerTimer backendOracle
  | WorkerNotifier nat backendOracle walIO
  | CallClose "error option"

text \<open>The worker after its \<open>select\<close>: the iteration, and the write-ahead log when the
  loop ends. A panic ends the goroutine.\<close>

definition workerAfterSelect ::
  "backendOracle \<Rightarrow> walIO \<Rightarrow> selected \<Rightarrow> bufferedEngine \<times> byte list option \<Rightarrow>
     bufferedEngine \<times> byte list option" where
  "workerAfterSelect orc io sel w =
     (case workerIteration orc sel (fst w) of
        (Panics p, s1) \<Rightarrow> (s1\<lparr>workerDone := True\<rparr>, snd w)
      | (Returns cont, s1) \<Rightarrow>
          (if cont then (s1, snd w)
           else (case writeAheadLog io s1 (snd w) of
                   (r, s2, wal2) \<Rightarrow> (s2\<lparr>workerDone := True\<rparr>, wal2))))"

fun step :: "event \<Rightarrow> bufferedEngine \<times> byte list option \<Rightarrow> bufferedEngine \<times> byte list option" where
  "step (CallIndexDocument doc) (s, wal) = (snd (IndexDocument s doc), wal)"
| "step CallFlush (s, wal) = (snd (FlushSend s), wal)"
| "step (WorkerTimer orc) (s, wal) =
     (if workerDone s then (s, wal)
      else (case workerIteration orc TimerC s of
              (Panics p, s1) \<Rightarrow> (s1\<lparr>workerDone := True\<rparr>, wal)
            | (Returns cont, s1) \<Rightarrow> (s1, wal)))"
| "step (WorkerNotifier k orc io) (s, wal) =
     (if workerDone s then (s, wal)
      else (case recvNotifier k s of
              None \<Rightarrow> (s, wal)
            | Some ((force, cont), s1) \<Rightarrow> workerAfterSelect orc io (NotifierC force cont) (s1, wal)))"
| "step (CallClose idxErr) (s, wal) = (snd (CloseSignal idxErr s), wal)"

primrec run :: "event list \<Rightarrow> bufferedEngine \<times> byte list option \<Rightarrow> bufferedEngine \<times> byte list option" where
  "run [] w = w"
| "run (e # es) w = run es (step e w)"

text \<open>The documents handed to \<open>IndexDocument\<close> in a sequence of events.\<close>

fun acceptedDocs :: "event list \<Rightarrow> DocumentComment list" where
  "acceptedDocs [] = []"
| "acceptedDocs (CallIndexDocument doc # es) = doc # acceptedDocs es"
| "acceptedDocs (e # es) = acceptedDocs es"

text \<open>No call of the back end fails during the events.\<close>

definition oracleOk :: "backendOracle \<Rightarrow> bool" where
  "oracleOk orc = (batchError orc = None \<and> (\<forall>doc. indexError orc doc = None))"

fun backendOk :: "event \<Rightarrow> bool" where
  "backendOk (WorkerTimer orc) = oracleOk orc"
| "backendOk (WorkerNotifier k orc io) = oracleOk orc"
| "backendOk e = True"

subsection \<open>Example values of a local shard\<close>

definition exampleBleveLib :: bleveLib where
  "exampleBleveLib =
     \<lparr>osStat = (\<lambda>path. StatNotExist), bleveNew = (\<lambda>path name. None), bleveOpen = (\<lambda>path. None)\<rparr>"

definition okOracle :: backendOracle where
  "okOracle = \<lparr>indexError = (\<lambda>doc. None), batchError = None\<rparr>"

definition failingOracle :: backendOracle where
  "failingOracle = \<lparr>indexError = (\<lambda>doc. None), batchError = Some (External ''commit failed'')\<rparr>"

definition exampleEngine :: "queueEntry list \<Rightarrow> bufferedEngine" where
  "exampleEngine q = (newEngine ''/var/idx/s1'')\<lparr>docQueue := q\<rparr>"

subsection \<open>Example values of the write-ahead log\<close>

text \<open>A stand-in for the encoder and the decoder: an encoding without zero byte, and a
  decoder that accepts every input.\<close>

definition exampleBytes :: "DocumentComment \<Rightarrow> byte list" where
  "exampleBytes doc = map (of_nat \<circ> of_char) (''{id:'' @ ID doc @ '',text:'' @ Text doc @ ''}'')"

definition exampleJson :: jsonLib where
  "exampleJson = \<lparr>jsonCheckValid = (\<lambda>data. None), jsonDecode = (\<lambda>data target. Inr exampleDoc)\<rparr>"

definition exampleWalIO :: walIO where
  "exampleWalIO =
     \<lparr>createError = None, writeError = (\<lambda>n. None), closeError = None,
      walMarshal = (\<lambda>doc. Inr (exampleBytes doc))\<rparr>"

definition exampleInitIO :: initIO where
  "exampleInitIO =
     \<lparr>openError = None, readError = EOF, removeError = None, initCloseError = None,
      cancelled = (\<lambda>k. False)\<rparr>"

subsection \<open>What the back end has seen of a document\<close>

text \<open>
  A document has been handed to the back end when it is in a batch that was passed to
  \<open>Batch\<close>, or when \<open>batch.Index\<close> refused it, which \<open>indexBatch\<close> logs with the
  document's identifier.
\<close>

definition passedToBatch :: "bufferedEngine \<Rightarrow> DocumentComment \<Rightarrow> bool" where
  "passedToBatch s doc = list_ex (\<lambda>c. doc \<in> set (fst c)) (batchCalls (index s))"

fun isAddError :: "string \<Rightarrow> logLine \<Rightarrow> bool" where
  "isAddError i (ErrorAddingDoc j e) = (i = j)"
| "isAddError i l = False"

definition refusedByBatch :: "bufferedEngine \<Rightarrow> DocumentComment \<Rightarrow> bool" where
  "refusedByBatch s doc = list_ex (isAddError (ID doc)) (engineLog s)"

definition handedToBackend :: "bufferedEngine \<Rightarrow> DocumentComment \<Rightarrow> bool" where
  "handedToBackend s doc = (passedToBatch s doc \<or> refusedByBatch s doc)"

text \<open>The documents and the flushers of a queue, in its order.\<close>

fun docsOf :: "queueEntry list \<Rightarrow> DocumentComment list" where
  "docsOf [] = []"
| "docsOf (QDoc doc # q) = doc # docsOf q"
| "docsOf (e # q) = docsOf q"

fun flushersOf :: "queueEntry list \<Rightarrow> nat list" where
  "flushersOf [] = []"
| "flushersOf (QFlusher f # q) = f # flushersOf q"
| "flushersOf (e # q) = flushersOf q"

text \<open>Invariants of the runs of a shard.\<close>

definition noOther :: "bufferedEngine \<Rightarrow> bool" where
  "noOther s = (QOther \<notin> set (docQueue s))"

definition freshFlushers :: "bufferedEngine \<Rightarrow> bool" where
  "freshFlushers s =
     ((\<forall>g \<in> set (flushersOf (docQueue s)). g < nextFlusher s)
      \<and> (\<forall>g. flusherNotified s g \<noteq> None \<longrightarrow> g < nextFlusher s))"

definition isAnyAddError :: "logLine \<Rightarrow> bool" where
  "isAnyAddError l = (case l of ErrorAddingDoc j e \<Rightarrow> True | _ \<Rightarrow> False)"

definition noFailure :: "bufferedEngine \<Rightarrow> bool" where
  "noFailure s =
     (list_all (\<lambda>c. snd c = None) (batchCalls (index s))
      \<and> \<not> list_ex isAnyAddError (engineLog s))"

text \<open>The lines \<open>indexBatch\<close> logs for the documents \<open>batch.Index\<close> refuses.\<close>

definition refusals :: "(DocumentComment \<Rightarrow> error option) \<Rightarrow> DocumentComment list \<Rightarrow> logLine list" where
  "refusals ix ds = map (\<lambda>d. ErrorAddingDoc (ID d) (the (ix d))) (filter (\<lambda>d. ix d \<noteq> None) ds)"

text \<open>
  For a flusher \<open>f\<close> and a document \<open>d\<close>: the queue holds documents and flushers
  only; \<open>d\<close> has been handed to the back end, or is still queued, or the worker has
  ended; and if \<open>f\<close> was notified with \<open>nil\<close>, \<open>d\<close> has been handed to the back end.
\<close>

definition barrierInv :: "nat \<Rightarrow> DocumentComment \<Rightarrow> bufferedEngine \<Rightarrow> bool" where
  "barrierInv f d s =
     (noOther s
      \<and> (handedToBackend s d \<or> QDoc d \<in> set (docQueue s) \<or> workerDone s)
      \<and> (flusherNotified s f = Some None \<longrightarrow> handedToBackend s d))"

definition runInv :: "bufferedEngine \<Rightarrow> bool" where
  "runInv s = (noOther s \<and> freshFlushers s)"

definition docInv :: "DocumentComment \<Rightarrow> bufferedEngine \<Rightarrow> bool" where
  "docInv d s = (noOther s \<and> (handedToBackend s d \<or> QDoc d \<in> set (docQueue s) \<or> workerDone s))"

section \<open>The worker step by step\<close>

text \<open>
  \<open>indexBatch\<close> in its two parts. Under the lock the queue is drained into a batch
  (\<open>batch.Index\<close> for each document, a deferred send for each flusher); the function
  returns at once on an empty queue and panics on an entry of unknown type. After the
  lock is released, \<open>s.index.Batch(batch)\<close> is called, its error is logged, and the
  deferred sends run.
\<close>

datatype lockedPart =
    QueueEmpty
  | UnknownEntry bufferedEngine
  | Drained "DocumentComment list" "nat list" bufferedEngine

definition indexBatchLocked :: "(DocumentComment \<Rightarrow> error option) \<Rightarrow> bufferedEngine \<Rightarrow> lockedPart" where
  "indexBatchLocked ixErr s =
     (if docQueue s = [] then QueueEmpty
      else
        (let (batch, flushers, lg, rest, panicked) = drainQueue ixErr (docQueue s) [] [] []
         in if panicked then
              UnknownEntry
                (s\<lparr>docQueue := rest, engineLog := engineLog s @ lg,
                   flusherNotified := notifyFlushers flushers None (flusherNotified s)\<rparr>)
            else Drained batch flushers (s\<lparr>docQueue := rest, engineLog := engineLog s @ lg\<rparr>)))"

definition indexBatchCommit ::
  "error option \<Rightarrow> DocumentComment list \<Rightarrow> nat list \<Rightarrow> bufferedEngine \<Rightarrow> bufferedEngine" where
  "indexBatchCommit err batch flushers s =
     s\<lparr>index := (index s)\<lparr>batchCalls := batchCalls (index s) @ [(batch, err)]\<rparr>,
       engineLog := engineLog s @ (case err of Some e \<Rightarrow> [ErrorIndexingBatch e] | None \<Rightarrow> []),
       flusherNotified := notifyFlushers flushers None (flusherNotified s)\<rparr>"

text \<open>
  A shard with its worker goroutine: the engine, where the worker is (at the \<open>select\<close>
  of its loop, or inside \<open>indexBatch\<close> between the release of the lock and the return
  of \<open>s.index.Batch\<close>, with the batch, the deferred flushers and what follows the call),
  and the file at \<open>getAheadLogPath\<close>.
\<close>

datatype afterBatch = ResetTimer | Continue bool

datatype workerPhase = AtSelect | InBatch "DocumentComment list" "nat list" afterBatch

record shard =
  shEngine :: bufferedEngine
  shPhase :: workerPhase
  shWal :: "byte list option"

text \<open>The end of an iteration on the notifier's case: the loop goes on when \<open>cont\<close>
  is true, and otherwise ends, the write-ahead log is written and the worker is done.\<close>

definition endIteration :: "walIO \<Rightarrow> bool \<Rightarrow> shard \<Rightarrow> shard" where
  "endIteration io cont w =
     (if cont then w\<lparr>shPhase := AtSelect\<rparr>
      else (case writeAheadLog io (shEngine w) (shWal w) of
              (r, s2, wal2) \<Rightarrow>
                w\<lparr>shEngine := s2\<lparr>workerDone := True\<rparr>, shPhase := AtSelect, shWal := wal2\<rparr>))"

text \<open>What follows the return of \<open>indexBatch\<close> in the iteration.\<close>

definition finishIteration :: "walIO \<Rightarrow> afterBatch \<Rightarrow> shard \<Rightarrow> shard" where
  "finishIteration io after w =
     (case after of
        ResetTimer \<Rightarrow>
          w\<lparr>shEngine := (shEngine w)\<lparr>tmrResets := Suc (tmrResets (shEngine w))\<rparr>,
            shPhase := AtSelect\<rparr>
      | Continue cont \<Rightarrow> endIteration io cont w)"

text \<open>The call of \<open>indexBatch\<close> up to the call of \<open>s.index.Batch\<close>.\<close>

definition startBatch ::
  "(DocumentComment \<Rightarrow> error option) \<Rightarrow> walIO \<Rightarrow> afterBatch \<Rightarrow> shard \<Rightarrow> shard" where
  "startBatch ixErr io after w =
     (case indexBatchLocked ixErr (shEngine w) of
        QueueEmpty \<Rightarrow> finishIteration io after w
      | UnknownEntry s1 \<Rightarrow> w\<lparr>shEngine := s1\<lparr>workerDone := True\<rparr>\<rparr>
      | Drained batch flushers s1 \<Rightarrow> w\<lparr>shEngine := s1, shPhase := InBatch batch flushers after\<rparr>)"

text \<open>
  The moves of the worker: at its \<open>select\<close> it takes the timer's case, or receives from
  the notifier (the \<open>k\<close>-th pending send, or the closing of the channel); inside
  \<open>indexBatch\<close> it waits for \<open>s.index.Batch\<close> to return, with the error \<open>err\<close>. The
  result is \<open>None\<close> when the worker cannot make the move where it is.
\<close>

datatype workerEvent = SelectTimer | SelectNotifier nat | BatchReturns "error option"

definition workerMove ::
  "(DocumentComment \<Rightarrow> error option) \<Rightarrow> walIO \<Rightarrow> workerEvent \<Rightarrow> shard \<Rightarrow> shard option" where
  "workerMove ixErr io ev w =
     (if workerDone (shEngine w) then None
      else
        (case shPhase w of
           AtSelect \<Rightarrow>
             (case ev of
                SelectTimer \<Rightarrow> Some (startBatch ixErr io ResetTimer w)
              | SelectNotifier k \<Rightarrow>
                  (case recvNotifier k (shEngine w) of
                     None \<Rightarrow> None
                   | Some ((force, cont), s1) \<Rightarrow>
                       (if force \<or> flushCount s1 \<le> int (length (docQueue s1))
                        then Some (startBatch ixErr io (Continue cont) (w\<lparr>shEngine := s1\<rparr>))
                        else Some (endIteration io cont (w\<lparr>shEngine := s1\<rparr>))))
              | BatchReturns err \<Rightarrow> None)
         | InBatch batch flushers after \<Rightarrow>
             (case ev of
                BatchReturns err \<Rightarrow>
                  Some (finishIteration io after
                          (w\<lparr>shEngine := indexBatchCommit err batch flushers (shEngine w)\<rparr>))
              | _ \<Rightarrow> None)))"






text \<open>
  A move of the worker at its \<open>select\<close>, followed by the return of \<open>s.index.Batch\<close>
  (with the error \<open>err\<close>) when the move has started a batch.
\<close>

definition settle ::
  "(DocumentComment \<Rightarrow> error option) \<Rightarrow> walIO \<Rightarrow> error option \<Rightarrow> shard \<Rightarrow> shard" where
  "settle ixErr io err w =
     (case shPhase w of
        AtSelect \<Rightarrow> w
      | InBatch batch flushers after \<Rightarrow>
          (case workerMove ixErr io (BatchReturns err) w of None \<Rightarrow> w | Some w1 \<Rightarrow> w1))"




section \<open>Verified properties\<close>

subsection \<open>Sorting of search requests\<close>

lemma rangePossible_set: "rangePossible s ps = (s \<in> set ps)"
  by (induction ps) auto


lemma bleveSearch_unfold:
  "bleveSearch idx req =
     (case idx (fst (buildSearchRequest req)) of
        Inl err \<Rightarrow> (Returns (Inl (Wrap err ''bleve search error'')), snd (buildSearchRequest req))
      | Inr serp \<Rightarrow>
          (case convertBleveSerp serp of
             Panics p \<Rightarrow>
               (Panics p, snd (buildSearchRequest req) @ [InfoFound (srTotal serp) (Query req)])
           | Returns result \<Rightarrow>
               (Returns (Inr result),
                snd (buildSearchRequest req) @ [InfoFound (srTotal serp) (Query req)])))"
  by (cases "buildSearchRequest req")
     (auto simp add: bleveSearch_def split: sum.splits outcome.splits)



subsection \<open>Conversion of the local back end's search result\<close>

lemma convertHits_panics:
  "(\<exists>p. convertHits hs docs = Panics p) =
     (\<exists>h\<in>set hs. fieldString (Fields h) urlFieldName = None)"
  by (induction hs arbitrary: docs)
     (auto simp: convertHit_def split: option.splits outcome.splits)

lemma convertHits_returns:
  "(\<exists>ds. convertHits hs docs = Returns ds) =
     (\<forall>h\<in>set hs. fieldString (Fields h) urlFieldName \<noteq> None)"
  using convertHits_panics [of hs docs] by (cases "convertHits hs docs") auto

lemma convertBleveSerp_panics:
  "(\<exists>p. convertBleveSerp res = Panics p) =
     (\<exists>h\<in>set (Hits res). fieldString (Fields h) urlFieldName = None)"
  using convertHits_panics [of "Hits res" "[]"]
  by (auto simp: convertBleveSerp_def split: outcome.splits)

lemma convertBleveSerp_returns:
  "(\<exists>page. convertBleveSerp res = Returns page) =
     (\<forall>h\<in>set (Hits res). fieldString (Fields h) urlFieldName \<noteq> None)"
  using convertBleveSerp_panics [of res] by (cases "convertBleveSerp res") auto

text \<open>
  Claim C10. \<open>convertBleveSerp\<close> panics exactly when some hit has no string value for
  the stored field \<open>url\<close>, and returns a page exactly when every hit has one. So
  \<open>bleveIndexer.Search\<close>, once the index has answered without error, panics (it does
  not return an error) exactly when some hit of the answer lacks the field, and it
  returns (a page, or the index's error wrapped) exactly when the index failed or every
  hit carries the field.
\<close>

theorem search_total_only_with_url:
  "((\<exists>p. convertBleveSerp res = Panics p) =
      (\<exists>h\<in>set (Hits res). fieldString (Fields h) urlFieldName = None))
   \<and> ((\<exists>page. convertBleveSerp res = Returns page) =
      (\<forall>h\<in>set (Hits res). fieldString (Fields h) urlFieldName \<noteq> None))
   \<and> ((\<exists>p. fst (bleveSearch idx req) = Panics p) =
      (\<exists>serp. idx (fst (buildSearchRequest req)) = Inr serp
         \<and> (\<exists>h\<in>set (Hits serp). fieldString (Fields h) urlFieldName = None)))
   \<and> ((\<exists>r. fst (bleveSearch idx req) = Returns r) =
      (\<forall>serp. idx (fst (buildSearchRequest req)) = Inr serp
         \<longrightarrow> (\<forall>h\<in>set (Hits serp). fieldString (Fields h) urlFieldName \<noteq> None)))"
proof -
  have c: "(\<exists>p. fst (bleveSearch idx req) = Panics p) =
      (\<exists>serp. idx (fst (buildSearchRequest req)) = Inr serp
         \<and> (\<exists>h\<in>set (Hits serp). fieldString (Fields h) urlFieldName = None))"
  proof (cases "idx (fst (buildSearchRequest req))")
    case (Inl err)
    then show ?thesis by (simp add: bleveSearch_unfold)
  next
    case (Inr serp)
    then show ?thesis
      using convertBleveSerp_panics [of serp]
      by (cases "convertBleveSerp serp") (auto simp add: bleveSearch_unfold)
  qed
  have d: "(\<exists>r. fst (bleveSearch idx req) = Returns r) =
      (\<forall>serp. idx (fst (buildSearchRequest req)) = Inr serp
         \<longrightarrow> (\<forall>h\<in>set (Hits serp). fieldString (Fields h) urlFieldName \<noteq> None))"
  proof (cases "idx (fst (buildSearchRequest req))")
    case (Inl err)
    then show ?thesis by (simp add: bleveSearch_unfold)
  next
    case (Inr serp)
    then show ?thesis
      using convertBleveSerp_returns [of serp]
      by (cases "convertBleveSerp serp") (auto simp add: bleveSearch_unfold)
  qed
  from convertBleveSerp_panics [of res] convertBleveSerp_returns [of res] c d
  show ?thesis by blast
qed

theorem search_total_only_with_url_witness:
  "(\<exists>p. convertBleveSerp
       \<lparr>srTotal = 1, Hits = [\<lparr>hitID = ''c1'', Fields = [(''username'', Some ''bob'')],
                               Locations = []\<rparr>]\<rparr> = Panics p)
   \<and> (\<exists>page. convertBleveSerp
       \<lparr>srTotal = 1, Hits = [\<lparr>hitID = ''c1'', Fields = [(''url'', Some ''http://a/b'')],
                               Locations = []\<rparr>]\<rparr> = Returns page)
   \<and> (\<exists>p. fst (bleveSearch
         (\<lambda>r. Inr \<lparr>srTotal = 1, Hits = [\<lparr>hitID = ''c1'', Fields = [(''url'', None)],
                                         Locations = []\<rparr>]\<rparr>)
         \<lparr>SiteID = ''s1'', Query = ''hello'', SortBy = [], Limit = 10, From = 0\<rparr>) = Panics p)"
  using search_total_only_with_url
    [of "\<lparr>srTotal = 1, Hits = [\<lparr>hitID = ''c1'', Fields = [(''username'', Some ''bob'')],
                                 Locations = []\<rparr>]\<rparr>"
        "\<lambda>r. Inr \<lparr>srTotal = 1, Hits = [\<lparr>hitID = ''c1'', Fields = [(''url'', None)],
                                        Locations = []\<rparr>]\<rparr>"
        "\<lparr>SiteID = ''s1'', Query = ''hello'', SortBy = [], Limit = 10, From = 0\<rparr>"]
    search_total_only_with_url
    [of "\<lparr>srTotal = 1, Hits = [\<lparr>hitID = ''c1'', Fields = [(''url'', Some ''http://a/b'')],
                                 Locations = []\<rparr>]\<rparr>"
        "\<lambda>r. Inr \<lparr>srTotal = 1, Hits = []\<rparr>"
        "\<lparr>SiteID = ''s1'', Query = ''hello'', SortBy = [], Limit = 10, From = 0\<rparr>"]
  by (simp add: fieldString_def urlFieldName_def)

subsection \<open>Secrets of the remote back end\<close>

lemma Split_nonempty: "Split s sep \<noteq> []"
  by (induction s) (auto split: list.splits)

lemma Split_no_sep: "sep \<notin> set s \<Longrightarrow> Split s sep = [s]"
  by (induction s) auto

lemma Split_append_sep: "sep \<notin> set u \<Longrightarrow> Split (u @ sep # r) sep = u # Split r sep"
  by (induction u) auto

lemma length_Split: "length (Split s sep) = Suc (count_list s sep)"
  by (induction s) (auto simp: Split_nonempty split: list.splits)

lemma HasPrefix_append: "HasPrefix (pre @ r) pre"
  by (simp add: HasPrefix_def)

lemma TrimPrefix_append: "TrimPrefix (pre @ r) pre = r"
  by (simp add: TrimPrefix_def HasPrefix_def)

lemma parseSecret_basic:
  assumes "CHR '':'' \<notin> set user" "CHR '':'' \<notin> set pass"
  shows "parseSecret (''basic:'' @ user @ '':'' @ pass) cfg =
           (None, cfg\<lparr>cfgUsername := user, Password := pass\<rparr>)"
proof -
  have "Split (user @ CHR '':'' # pass) CHR '':'' = [user, pass]"
    using assms by (simp add: Split_append_sep Split_no_sep)
  then show ?thesis
    unfolding parseSecret_def
    using HasPrefix_append [of "''basic:''" "user @ '':'' @ pass"]
      TrimPrefix_append [of "''basic:''" "user @ '':'' @ pass"]
    by (simp add: Let_def)
qed

lemma parseSecret_basic_bad:
  assumes "HasPrefix secret ''basic:''"
    and "count_list (TrimPrefix secret ''basic:'') CHR '':'' \<noteq> 1"
  shows "parseSecret secret cfg = (Some BasicSecretFormat, cfg)"
  using assms by (simp add: parseSecret_def length_Split Let_def)

lemma parseSecret_token:
  "parseSecret (''token:'' @ key) cfg = (None, cfg\<lparr>APIKey := key\<rparr>)"
  unfolding parseSecret_def
  using HasPrefix_append [of "''token:''" key] TrimPrefix_append [of "''token:''" key]
  by (simp add: HasPrefix_def)

lemma parseSecret_other:
  "\<not> HasPrefix secret ''basic:'' \<Longrightarrow> \<not> HasPrefix secret ''token:'' \<Longrightarrow>
   parseSecret secret cfg = (Some (SecretPrefix [''basic:'', ''token:'']), cfg)"
  by (simp add: parseSecret_def)

lemma makeBulkIndexers_ok:
  "\<forall>s\<in>set sites. NewBulkIndexer lib s = None \<Longrightarrow>
   \<exists>bis1. makeBulkIndexers lib sites bis = Inr bis1 \<and> dom bis1 = dom bis \<union> set sites"
proof (induction sites arbitrary: bis)
  case Nil
  then show ?case by simp
next
  case (Cons a sites)
  then obtain bis1 where "makeBulkIndexers lib sites (bis(a \<mapsto> [])) = Inr bis1"
      "dom bis1 = dom (bis(a \<mapsto> [])) \<union> set sites"
    by (metis list.set_intros(2))
  with Cons.prems show ?case by auto
qed

lemma newElasticService_other:
  "Endpoint params \<noteq> [] \<Longrightarrow> Secret params \<noteq> [] \<Longrightarrow>
   \<not> HasPrefix (Secret params) ''basic:'' \<Longrightarrow> \<not> HasPrefix (Secret params) ''token:'' \<Longrightarrow>
   newElasticService lib params = Inl (SecretPrefix [''basic:'', ''token:''])"
  by (simp add: newElasticService_def parseSecret_other)

lemma newElasticService_ok:
  assumes "Endpoint params \<noteq> []" "Secret params \<noteq> []"
    and "parseSecret (Secret params)
           \<lparr>Addresses = [Endpoint params], cfgUsername = [], Password = [], APIKey = []\<rparr>
         = (None, cfg1)"
    and "NewClient lib cfg1 = None"
    and "\<forall>s\<in>set (Sites params). NewBulkIndexer lib s = None"
  shows "\<exists>e. newElasticService lib params = Inr e \<and> client e = cfg1
           \<and> dom (bulkIndexers e) = set (Sites params)"
proof -
  obtain bis1 where "makeBulkIndexers lib (Sites params) Map.empty = Inr bis1"
      "dom bis1 = set (Sites params)"
    using makeBulkIndexers_ok [OF assms(5), of Map.empty] by auto
  then show ?thesis using assms(1-4) by (simp add: newElasticService_def)
qed

text \<open>
  Claim C4, as the code has it. \<open>parseSecret\<close> accepts \<open>basic:<user>:<pass>\<close> when
  the rest after the prefix \<open>basic:\<close> has exactly two fields between colons (user and
  password without a colon) and sets user name and password; a \<open>basic:\<close> secret whose
  rest has another number of fields is refused with the basic-auth format error;
  \<open>token:<apiKey>\<close> is accepted and sets the API key; a secret with neither prefix is
  refused with the message that enumerates \<open>basic:\<close> and \<open>token:\<close>. The constructor
  returns that error when endpoint and secret are both non-empty, fails with
  "elasticsearch parameters are not set" when one of them is empty, and succeeds with the
  parsed credentials when, moreover, the client library builds its client and the bulk
  indexers.
\<close>

theorem secret_forms:
  "(CHR '':'' \<notin> set user \<and> CHR '':'' \<notin> set pass \<longrightarrow>
      parseSecret (''basic:'' @ user @ '':'' @ pass) cfg =
        (None, cfg\<lparr>cfgUsername := user, Password := pass\<rparr>))
   \<and> (HasPrefix secret1 ''basic:'' \<and> count_list (TrimPrefix secret1 ''basic:'') CHR '':'' \<noteq> 1 \<longrightarrow>
      parseSecret secret1 cfg = (Some BasicSecretFormat, cfg))
   \<and> parseSecret (''token:'' @ key) cfg = (None, cfg\<lparr>APIKey := key\<rparr>)
   \<and> (\<not> HasPrefix secret2 ''basic:'' \<and> \<not> HasPrefix secret2 ''token:'' \<longrightarrow>
      parseSecret secret2 cfg = (Some (SecretPrefix [''basic:'', ''token:'']), cfg))
   \<and> errorString (SecretPrefix [''basic:'', ''token:'']) =
      ''secret should starts with one of prefixes: [basic: token:]''
   \<and> (Endpoint params1 \<noteq> [] \<and> Secret params1 \<noteq> [] \<and> \<not> HasPrefix (Secret params1) ''basic:''
        \<and> \<not> HasPrefix (Secret params1) ''token:'' \<longrightarrow>
      newElasticService lib params1 = Inl (SecretPrefix [''basic:'', ''token:'']))
   \<and> (Endpoint params2 = [] \<or> Secret params2 = [] \<longrightarrow>
      newElasticService lib params2 = Inl ElasticParamsNotSet)
   \<and> (Endpoint params3 \<noteq> [] \<and> Secret params3 \<noteq> []
        \<and> parseSecret (Secret params3)
             \<lparr>Addresses = [Endpoint params3], cfgUsername = [], Password = [], APIKey = []\<rparr>
           = (None, cfg1)
        \<and> NewClient lib cfg1 = None \<and> (\<forall>s\<in>set (Sites params3). NewBulkIndexer lib s = None) \<longrightarrow>
      (\<exists>e. newElasticService lib params3 = Inr e \<and> client e = cfg1
          \<and> dom (bulkIndexers e) = set (Sites params3)))"
proof -
  have g: "Endpoint params2 = [] \<or> Secret params2 = [] \<longrightarrow>
      newElasticService lib params2 = Inl ElasticParamsNotSet"
    by (auto simp add: newElasticService_def)
  have m: "errorString (SecretPrefix [''basic:'', ''token:'']) =
      ''secret should starts with one of prefixes: [basic: token:]''"
    by (simp add: showStrings_def)
  show ?thesis
    using parseSecret_basic [of user pass cfg] parseSecret_basic_bad [of secret1 cfg]
      parseSecret_token [of key cfg] parseSecret_other [of secret2 cfg]
      newElasticService_other [of params1 lib] newElasticService_ok [of params3 cfg1 lib] g m
    by blast
qed

theorem secret_forms_witness:
  "parseSecret ''basic:admin:pw'' exampleConfig =
      (None, exampleConfig\<lparr>cfgUsername := ''admin'', Password := ''pw''\<rparr>)
   \<and> parseSecret ''basic:admin'' exampleConfig = (Some BasicSecretFormat, exampleConfig)
   \<and> parseSecret ''token:abc'' exampleConfig = (None, exampleConfig\<lparr>APIKey := ''abc''\<rparr>)
   \<and> parseSecret ''wrong:admin:pw'' exampleConfig =
      (Some (SecretPrefix [''basic:'', ''token:'']), exampleConfig)
   \<and> newElasticService exampleElasticLib (exampleParams ''wrong:admin:pw'') =
      Inl (SecretPrefix [''basic:'', ''token:''])
   \<and> newElasticService exampleElasticLib (exampleParams []) = Inl ElasticParamsNotSet
   \<and> (\<exists>e. newElasticService exampleElasticLib (exampleParams ''token:abc'') = Inr e
        \<and> client e = exampleConfig\<lparr>APIKey := ''abc''\<rparr> \<and> dom (bulkIndexers e) = {''s1'', ''s2''})"
  using secret_forms [where user = "''admin''" and pass = "''pw''" and cfg = exampleConfig
      and ?secret1.0 = "''basic:admin''" and key = "''abc''" and ?secret2.0 = "''wrong:admin:pw''"
      and ?params1.0 = "exampleParams ''wrong:admin:pw''" and lib = exampleElasticLib
      and ?params2.0 = "exampleParams []" and ?params3.0 = "exampleParams ''token:abc''"
      and ?cfg1.0 = "exampleConfig\<lparr>APIKey := ''abc''\<rparr>"]
  by (simp add: HasPrefix_def TrimPrefix_def exampleParams_def exampleElasticLib_def
      exampleConfig_def parseSecret_def)

text \<open>
  The claim as the spec words it fails: a \<open>basic:\<close> secret with three fields after the
  prefix is refused while one with two fields is accepted, and a secret without a
  recognised prefix (the empty one) makes the constructor fail with another message than
  the one that enumerates the prefixes.
\<close>

theorem secret_forms_counterexample:
  "fst (parseSecret ''basic:admin:pw:x'' exampleConfig) = Some BasicSecretFormat
   \<and> fst (parseSecret ''basic:admin:pw'' exampleConfig) = None
   \<and> \<not> HasPrefix [] ''basic:'' \<and> \<not> HasPrefix [] ''token:''
   \<and> newElasticService exampleElasticLib (exampleParams []) = Inl ElasticParamsNotSet"
  by (simp add: parseSecret_def HasPrefix_def TrimPrefix_def newElasticService_def
      exampleParams_def)

subsection \<open>Unknown sites in the remote back end\<close>




subsection \<open>Analyzers of the local back end\<close>

lemma analyzerMapping_dom:
  "(analyzerMapping a \<noteq> None) = (a \<in> {''standard'', ''english'', ''russian''})"
  by (auto simp: analyzerMapping_def)

lemma rangeKeys_analyzers:
  assumes "distinct visit" and "{''standard'', ''english'', ''russian''} \<subseteq> set visit"
  shows "set (rangeKeys analyzerMapping visit) = {''standard'', ''english'', ''russian''}
         \<and> distinct (rangeKeys analyzerMapping visit)"
proof -
  have "set (rangeKeys analyzerMapping visit) =
        {k \<in> set visit. k \<in> {''standard'', ''english'', ''russian''}}"
    unfolding rangeKeys_def using analyzerMapping_dom by simp
  then show ?thesis using assms by (auto simp: rangeKeys_def)
qed

lemma newBleve_unknown:
  "analyzer \<notin> {''standard'', ''english'', ''russian''} \<Longrightarrow>
   newBleve lib visit path analyzer =
     Inl (UnknownAnalyzer analyzer (rangeKeys analyzerMapping visit))"
  using analyzerMapping_dom [of analyzer] by (auto simp: newBleve_def)

lemma newBleve_known:
  "analyzer \<in> {''standard'', ''english'', ''russian''} \<Longrightarrow>
   newBleve lib visit path analyzer \<noteq> Inl (UnknownAnalyzer a as)"
  using analyzerMapping_dom [of analyzer]
  by (auto simp: newBleve_def split: option.splits statResult.splits)


text \<open>
  Claim C5. With an analyzer name outside \<open>{standard, english, russian}\<close>, \<open>newBleve\<close>
  fails with the unknown-analyzer error, which names the analyzer and lists the valid
  names: each of the three once, in the order the loop over the map visits them. With a
  name of the set, \<open>newBleve\<close> never fails with that error, and it builds the engine
  when the index directory can be created or opened.
\<close>

theorem analyzer_validation:
  "(analyzer1 \<notin> {''standard'', ''english'', ''russian''} \<and> distinct visit
      \<and> {''standard'', ''english'', ''russian''} \<subseteq> set visit \<longrightarrow>
      (\<exists>as. newBleve lib visit path analyzer1 = Inl (UnknownAnalyzer analyzer1 as)
          \<and> set as = {''standard'', ''english'', ''russian''} \<and> distinct as))
   \<and> (analyzer2 \<in> {''standard'', ''english'', ''russian''} \<longrightarrow>
      newBleve lib visit path analyzer2 \<noteq> Inl (UnknownAnalyzer a as2))
   \<and> (analyzer2 \<in> {''standard'', ''english'', ''russian''} \<and> osStat lib path = StatNotExist
        \<and> (\<forall>name. bleveNew lib path name = None) \<longrightarrow>
      newBleve lib visit path analyzer2 = Inr (newEngine path))"
proof -
  have c: "analyzer2 \<in> {''standard'', ''english'', ''russian''} \<and> osStat lib path = StatNotExist
        \<and> (\<forall>name. bleveNew lib path name = None) \<longrightarrow>
      newBleve lib visit path analyzer2 = Inr (newEngine path)"
    using analyzerMapping_dom [of analyzer2] by (auto simp: newBleve_def)
  show ?thesis
    using newBleve_unknown [of analyzer1 lib visit path] rangeKeys_analyzers [of visit]
      newBleve_known [of analyzer2 lib visit path a as2] c
    by blast
qed

theorem analyzer_validation_witness:
  "newBleve exampleBleveLib [''russian'', ''standard'', ''english''] ''/var/idx/s1'' ''german'' =
     Inl (UnknownAnalyzer ''german'' [''russian'', ''standard'', ''english''])
   \<and> errorString (UnknownAnalyzer ''german'' [''russian'', ''standard'', ''english'']) =
     ''Unknown analyzer: '' @ [CHR 0x22] @ ''german'' @ [CHR 0x22]
       @ ''. Available analyzers for bleve: [russian standard english]''
   \<and> newBleve exampleBleveLib [''russian'', ''standard'', ''english''] ''/var/idx/s1'' ''english'' =
     Inr (newEngine ''/var/idx/s1'')"
  using analyzer_validation [where ?analyzer1.0 = "''german''"
      and visit = "[''russian'', ''standard'', ''english'']" and lib = exampleBleveLib
      and path = "''/var/idx/s1''" and ?analyzer2.0 = "''english''"]
  by (simp add: exampleBleveLib_def newBleve_def analyzerMapping_def rangeKeys_def
      showStrings_def)

subsection \<open>The worker's policy\<close>





subsection \<open>Accepting a document\<close>

lemma indexBatch_parts:
  "indexBatch orc s =
     (case indexBatchLocked (indexError orc) s of
        QueueEmpty \<Rightarrow> (Returns (), s)
      | UnknownEntry s1 \<Rightarrow> (Panics UnknownQueueType, s1)
      | Drained batch flushers s1 \<Rightarrow>
          (Returns (), indexBatchCommit (batchError orc) batch flushers s1))"
  by (auto simp: indexBatch_def indexBatchLocked_def indexBatchCommit_def Let_def
      split: prod.splits)

lemma endIteration_eq:
  "shPhase (endIteration io cont w) = AtSelect
   \<and> (shEngine (endIteration io cont w), shWal (endIteration io cont w)) =
       (if cont then (shEngine w, shWal w)
        else (case writeAheadLog io (shEngine w) (shWal w) of
                (r, s2, wal2) \<Rightarrow> (s2\<lparr>workerDone := True\<rparr>, wal2)))"
  by (simp add: endIteration_def split: prod.splits)

lemma settle_AtSelect: "shPhase w = AtSelect \<Longrightarrow> settle ixErr io err w = w"
  by (simp add: settle_def)

lemma recvNotifier_workerDone:
  "recvNotifier k s = Some (r, s1) \<Longrightarrow> workerDone s1 = workerDone s"
  by (auto simp: recvNotifier_def split: if_splits)

lemma indexBatchLocked_workerDone:
  "indexBatchLocked ixErr s = Drained batch flushers s2 \<Longrightarrow> workerDone s2 = workerDone s"
  by (auto simp: indexBatchLocked_def Let_def split: if_splits prod.splits)

lemma workerAfterSelect_eq:
  "workerAfterSelect orc io (NotifierC force cont) (s1, wal) =
     (if force \<or> flushCount s1 \<le> int (length (docQueue s1)) then
        (case indexBatchLocked (indexError orc) s1 of
           QueueEmpty \<Rightarrow>
             (if cont then (s1, wal)
              else (case writeAheadLog io s1 wal of (r, s2, wal2) \<Rightarrow> (s2\<lparr>workerDone := True\<rparr>, wal2)))
         | UnknownEntry s2 \<Rightarrow> (s2\<lparr>workerDone := True\<rparr>, wal)
         | Drained batch flushers s2 \<Rightarrow>
             (if cont then (indexBatchCommit (batchError orc) batch flushers s2, wal)
              else (case writeAheadLog io (indexBatchCommit (batchError orc) batch flushers s2) wal of
                      (r, s3, wal2) \<Rightarrow> (s3\<lparr>workerDone := True\<rparr>, wal2))))
      else
        (if cont then (s1, wal)
         else (case writeAheadLog io s1 wal of (r, s2, wal2) \<Rightarrow> (s2\<lparr>workerDone := True\<rparr>, wal2))))"
  by (simp add: workerAfterSelect_def workerIteration_def indexBatch_parts Let_def
      split: lockedPart.splits)

text \<open>
  A move of the worker at its \<open>select\<close> on the notifier's case, followed by the return
  of \<open>s.index.Batch\<close> when the move has started a batch, is the step of the runs above.
\<close>

lemma notifier_move_is_step:
  assumes "shPhase w = AtSelect"
    and "workerMove (indexError orc) io (SelectNotifier k) w = Some w1"
  shows "(shEngine (settle (indexError orc) io (batchError orc) w1),
          shWal (settle (indexError orc) io (batchError orc) w1)) =
         step (WorkerNotifier k orc io) (shEngine w, shWal w)"
proof -
  have nd: "\<not> workerDone (shEngine w)"
    using assms(2) by (auto simp: workerMove_def split: if_splits)
  obtain force cont s1 where rv: "recvNotifier k (shEngine w) = Some ((force, cont), s1)"
    using assms nd by (auto simp: workerMove_def split: option.splits)
  have nd1: "\<not> workerDone s1" using recvNotifier_workerDone [OF rv] nd by simp
  have st: "step (WorkerNotifier k orc io) (shEngine w, shWal w) =
      workerAfterSelect orc io (NotifierC force cont) (s1, shWal w)"
    using nd rv by simp
  show ?thesis
  proof (cases "force \<or> flushCount s1 \<le> int (length (docQueue s1))")
    case False
    then have w1: "w1 = endIteration io cont (w\<lparr>shEngine := s1\<rparr>)"
      using assms nd rv by (auto simp: workerMove_def)
    show ?thesis
      unfolding st workerAfterSelect_eq w1
      using False endIteration_eq [of io cont "w\<lparr>shEngine := s1\<rparr>"]
      by (simp add: settle_AtSelect)
  next
    case True
    then have w1: "w1 = startBatch (indexError orc) io (Continue cont) (w\<lparr>shEngine := s1\<rparr>)"
      using assms nd rv by (auto simp: workerMove_def)
    show ?thesis
    proof (cases "indexBatchLocked (indexError orc) s1")
      case QueueEmpty
      then have w1': "w1 = endIteration io cont (w\<lparr>shEngine := s1\<rparr>)"
        using w1 by (simp add: startBatch_def finishIteration_def)
      show ?thesis
        unfolding st workerAfterSelect_eq w1'
        using True QueueEmpty endIteration_eq [of io cont "w\<lparr>shEngine := s1\<rparr>"]
        by (simp add: settle_AtSelect)
    next
      case (UnknownEntry s2)
      then have w1': "w1 = w\<lparr>shEngine := s2\<lparr>workerDone := True\<rparr>\<rparr>"
        using w1 by (simp add: startBatch_def)
      show ?thesis
        unfolding st workerAfterSelect_eq w1'
        using True UnknownEntry assms(1) by (simp add: settle_AtSelect)
    next
      case (Drained batch flushers s2)
      then have w1': "w1 = w\<lparr>shEngine := s2, shPhase := InBatch batch flushers (Continue cont)\<rparr>"
        using w1 by (simp add: startBatch_def)
      have nd2: "\<not> workerDone s2" using indexBatchLocked_workerDone [OF Drained] nd1 by simp
      have se: "settle (indexError orc) io (batchError orc) w1 =
          endIteration io cont
            (w1\<lparr>shEngine := indexBatchCommit (batchError orc) batch flushers s2\<rparr>)"
        using nd2 by (simp add: w1' settle_def workerMove_def finishIteration_def)
      show ?thesis
        unfolding st workerAfterSelect_eq se
        using True Drained
          endIteration_eq [of io cont
            "w1\<lparr>shEngine := indexBatchCommit (batchError orc) batch flushers s2\<rparr>"]
        by (simp add: w1')
    qed
  qed
qed












subsection \<open>Replay of the write-ahead log\<close>

lemma jsonUnmarshal_nil: "\<exists>err. jsonUnmarshal lib data None = Inl err"
  by (simp add: jsonUnmarshal_def split: option.splits)

lemma ReadBytes_found:
  "delim \<in> set buf \<Longrightarrow> \<exists>data rest. ReadBytes buf endErr delim = (data, None, rest)"
proof -
  assume "delim \<in> set buf"
  then have "dropWhile (\<lambda>b. b \<noteq> delim) buf \<noteq> []" by (induction buf) auto
  then show ?thesis by (auto simp: ReadBytes_def split: list.splits)
qed

lemma ReadBytes_not_found:
  assumes "delim \<notin> set buf"
  shows "ReadBytes buf endErr delim = (buf, Some endErr, [])"
proof -
  have d: "dropWhile (\<lambda>b. b \<noteq> delim) buf = []"
    using assms by (induction buf) auto
  show ?thesis unfolding ReadBytes_def by (simp only: d list.case)
qed

lemma dropWhile_found:
  "delim \<notin> set data \<Longrightarrow>
   dropWhile (\<lambda>b. b \<noteq> delim) (data @ delim # rest) = delim # rest"
  by (induction data) auto

lemma takeWhile_found:
  "delim \<notin> set data \<Longrightarrow> takeWhile (\<lambda>b. b \<noteq> delim) (data @ delim # rest) = data"
  by (induction data) auto

text \<open>The framing of a record does round-trip: a record without zero byte, written with
  its sentinel, is read back whole, and stripping the sentinel gives the record.\<close>

lemma ReadBytes_frame:
  assumes "delim \<notin> set data"
  shows "ReadBytes (data @ delim # rest) endErr delim = (data @ [delim], None, rest)"
  unfolding ReadBytes_def
  by (simp only: dropWhile_found [OF assms] takeWhile_found [OF assms] list.case)

lemma readAheadLog_record:
  assumes "\<not> canc k" and "0 \<in> set buf"
  shows "\<exists>err. readAheadLog lib canc endErr k buf s = (Returns (Some err), s)"
proof -
  obtain data rest where r: "ReadBytes buf endErr 0 = (data, None, rest)"
    using ReadBytes_found [of 0 buf endErr] assms(2) by blast
  obtain err where e: "jsonUnmarshal lib (butlast data) None = Inl err"
    using jsonUnmarshal_nil by blast
  show ?thesis
    by (subst readAheadLog.simps) (simp add: assms(1) r e Let_def)
qed

lemma readAheadLog_no_record:
  assumes "\<not> canc k" and "0 \<notin> set buf"
  shows "readAheadLog lib canc endErr k buf s =
           (if endErr = EOF then (Returns None, s) else (Returns (Some endErr), s))"
  by (subst readAheadLog.simps) (simp add: assms(1) ReadBytes_not_found [OF assms(2)] Let_def)

lemma readAheadLog_cancelled:
  "canc k \<Longrightarrow> readAheadLog lib canc endErr k buf s = (Returns (Some ReadInterrupted), s)"
  by (subst readAheadLog.simps) simp

lemma readAheadLog_state:
  "snd (readAheadLog lib canc endErr k buf s) = s
   \<and> (\<exists>r. fst (readAheadLog lib canc endErr k buf s) = Returns r)"
proof (cases "canc k")
  case True
  then show ?thesis by (simp add: readAheadLog_cancelled)
next
  case False
  show ?thesis
  proof (cases "0 \<in> set buf")
    case True
    then show ?thesis using readAheadLog_record [of canc k buf lib endErr s] False by auto
  next
    case F2: False
    then show ?thesis using readAheadLog_no_record [of canc k buf lib endErr s] False by auto
  qed
qed

lemma Init_record:
  assumes "0 \<in> set content" and "openError io = None" and "\<not> cancelled io 0"
  shows "\<exists>err. Init lib io s (Some content) =
           (Returns (True, Some err), s\<lparr>engineLog := engineLog s @ initCloseLog io\<rparr>, Some content)"
proof -
  obtain err where
    "readAheadLog lib (cancelled io) (readError io) 0 content s = (Returns (Some err), s)"
    using readAheadLog_record [of "cancelled io" 0 content lib "readError io" s] assms by blast
  then show ?thesis by (simp add: Init_def assms(2))
qed

lemma Init_queue: "docQueue (fst (snd (Init lib io s wal))) = docQueue s"
proof (cases wal)
  case None
  then show ?thesis by (simp add: Init_def)
next
  case (Some content)
  obtain r where "readAheadLog lib (cancelled io) (readError io) 0 content s = (Returns r, s)"
    using readAheadLog_state [of lib "cancelled io" "readError io" 0 content s]
    by (metis prod.collapse)
  then show ?thesis using Some by (simp add: Init_def split: option.splits)
qed

text \<open>
  Claim C2, on the code. A write-ahead log that holds a record (a zero byte) makes
  \<open>Init\<close> return an error, whatever the record is, with the file left in place: the
  record is decoded into a nil pointer, which \<open>json.Unmarshal\<close> refuses. \<open>Init\<close>
  never puts a document into the queue. So the log is never replayed, against the claim,
  whose second half (a failure leaves the file) holds.
\<close>

theorem init_never_replays:
  "(0 \<in> set content \<and> openError io = None \<and> \<not> cancelled io 0 \<longrightarrow>
      (\<exists>err. Init lib io s (Some content) =
         (Returns (True, Some err), s\<lparr>engineLog := engineLog s @ initCloseLog io\<rparr>,
          Some content)))
   \<and> docQueue (fst (snd (Init lib io s wal))) = docQueue s"
  using Init_record [of content io lib s] Init_queue [of lib io s wal] by blast

theorem init_never_replays_witness:
  "Init exampleJson exampleInitIO (exampleEngine []) (Some (exampleBytes exampleDoc @ [0])) =
     (Returns (True, Some InvalidUnmarshal), exampleEngine [],
      Some (exampleBytes exampleDoc @ [0]))"
proof -
  have "\<exists>err. Init exampleJson exampleInitIO (exampleEngine [])
          (Some (exampleBytes exampleDoc @ [0])) =
        (Returns (True, Some err),
         (exampleEngine [])\<lparr>engineLog := engineLog (exampleEngine []) @ initCloseLog exampleInitIO\<rparr>,
         Some (exampleBytes exampleDoc @ [0]))"
    using init_never_replays [where content = "exampleBytes exampleDoc @ [0]"
        and io = exampleInitIO and lib = exampleJson and s = "exampleEngine []"]
    by (simp add: exampleInitIO_def)
  then obtain err where i: "Init exampleJson exampleInitIO (exampleEngine [])
          (Some (exampleBytes exampleDoc @ [0])) =
        (Returns (True, Some err), exampleEngine [], Some (exampleBytes exampleDoc @ [0]))"
    by (auto simp: exampleInitIO_def initCloseLog_def exampleEngine_def newEngine_def)
  have z: "(0::byte) \<notin> set (exampleBytes exampleDoc)"
    by (simp add: exampleBytes_def exampleDoc_def)
  have "readAheadLog exampleJson (cancelled exampleInitIO) (readError exampleInitIO) 0
          (exampleBytes exampleDoc @ [0]) (exampleEngine []) =
        (Returns (Some InvalidUnmarshal), exampleEngine [])"
    using ReadBytes_frame [OF z, of "[]" EOF]
    by (subst readAheadLog.simps)
       (simp add: exampleInitIO_def Let_def jsonUnmarshal_def exampleJson_def)
  then have "Init exampleJson exampleInitIO (exampleEngine [])
          (Some (exampleBytes exampleDoc @ [0])) =
        (Returns (True, Some InvalidUnmarshal),
         (exampleEngine [])\<lparr>engineLog := engineLog (exampleEngine []) @ initCloseLog exampleInitIO\<rparr>,
         Some (exampleBytes exampleDoc @ [0]))"
    by (simp add: Init_def exampleInitIO_def)
  with i show ?thesis by simp
qed

text \<open>
  Claim C3, on the code. What \<open>writeAheadLog\<close> writes for a document (its encoding and
  the zero byte) is not read back by \<open>Init\<close>: reading that file ends with an error and
  the document is not in the queue afterwards. The framing itself is sound
  (\<open>ReadBytes_frame\<close>); the decoding into a nil pointer is what fails.
\<close>

theorem wal_round_trip_fails:
  "walMarshal wio doc = Inr data \<and> createError wio = None \<and> writeError wio 0 = None
     \<and> openError rio = None \<and> \<not> cancelled rio 0 \<longrightarrow>
   snd (snd (writeAheadLog wio (s\<lparr>docQueue := [QDoc doc]\<rparr>) wal)) = Some (data @ [0])
   \<and> (\<exists>err. fst (Init lib rio (s1\<lparr>docQueue := []\<rparr>) (Some (data @ [0]))) = Returns (True, Some err))
   \<and> docQueue (fst (snd (Init lib rio (s1\<lparr>docQueue := []\<rparr>) (Some (data @ [0]))))) = []
   \<and> snd (snd (Init lib rio (s1\<lparr>docQueue := []\<rparr>) (Some (data @ [0])))) = Some (data @ [0])"
proof (intro impI)
  assume a: "walMarshal wio doc = Inr data \<and> createError wio = None \<and> writeError wio 0 = None
     \<and> openError rio = None \<and> \<not> cancelled rio 0"
  have w: "snd (snd (writeAheadLog wio (s\<lparr>docQueue := [QDoc doc]\<rparr>) wal)) = Some (data @ [0])"
    using a by (simp add: writeAheadLog_def)
  obtain err where i: "Init lib rio (s1\<lparr>docQueue := []\<rparr>) (Some (data @ [0])) =
      (Returns (True, Some err),
       (s1\<lparr>docQueue := []\<rparr>)\<lparr>engineLog := engineLog (s1\<lparr>docQueue := []\<rparr>) @ initCloseLog rio\<rparr>,
       Some (data @ [0]))"
    using Init_record [of "data @ [0]" rio lib "s1\<lparr>docQueue := []\<rparr>"] a by auto
  show "snd (snd (writeAheadLog wio (s\<lparr>docQueue := [QDoc doc]\<rparr>) wal)) = Some (data @ [0])
   \<and> (\<exists>err. fst (Init lib rio (s1\<lparr>docQueue := []\<rparr>) (Some (data @ [0]))) = Returns (True, Some err))
   \<and> docQueue (fst (snd (Init lib rio (s1\<lparr>docQueue := []\<rparr>) (Some (data @ [0]))))) = []
   \<and> snd (snd (Init lib rio (s1\<lparr>docQueue := []\<rparr>) (Some (data @ [0])))) = Some (data @ [0])"
    using w i by simp
qed

theorem wal_round_trip_fails_witness:
  "snd (snd (writeAheadLog exampleWalIO (exampleEngine [QDoc exampleDoc]) None)) =
     Some (exampleBytes exampleDoc @ [0])
   \<and> (\<exists>err. fst (Init exampleJson exampleInitIO (exampleEngine [])
         (Some (exampleBytes exampleDoc @ [0]))) = Returns (True, Some err))
   \<and> docQueue (fst (snd (Init exampleJson exampleInitIO (exampleEngine [])
         (Some (exampleBytes exampleDoc @ [0]))))) = []"
  using wal_round_trip_fails [where wio = exampleWalIO and doc = exampleDoc
      and data = "exampleBytes exampleDoc" and rio = exampleInitIO
      and s = "exampleEngine []" and ?s1.0 = "exampleEngine []" and wal = None
      and lib = exampleJson]
  by (simp add: exampleWalIO_def exampleInitIO_def exampleEngine_def)

subsection \<open>The flush barrier\<close>

lemma notifyFlushers_apply:
  "notifyFlushers fl v m g = (if g \<in> set fl then Some v else m g)"
  unfolding notifyFlushers_def by (induction fl arbitrary: m) auto

lemma QDoc_docsOf: "(QDoc d \<in> set q) = (d \<in> set (docsOf q))"
  by (induction q rule: docsOf.induct) auto

lemma QFlusher_flushersOf: "(QFlusher f \<in> set q) = (f \<in> set (flushersOf q))"
  by (induction q rule: flushersOf.induct) auto

lemma docsOf_append: "docsOf (q @ r) = docsOf q @ docsOf r"
  by (induction q rule: docsOf.induct) auto

lemma flushersOf_append: "flushersOf (q @ r) = flushersOf q @ flushersOf r"
  by (induction q rule: flushersOf.induct) auto

lemma drainQueue_eq:
  "QOther \<notin> set q \<Longrightarrow>
   drainQueue ix q batch fl lg =
     (batch @ filter (\<lambda>d. ix d = None) (docsOf q), rev (flushersOf q) @ fl,
      lg @ refusals ix (docsOf q), [], False)"
  by (induction ix q batch fl lg rule: drainQueue.induct) (auto simp: refusals_def)

lemma indexBatch_eq:
  assumes "noOther s"
  shows "indexBatch orc s =
     (if docQueue s = [] then (Returns (), s)
      else (Returns (),
            s\<lparr>docQueue := [],
              index := (index s)\<lparr>batchCalls := batchCalls (index s) @
                 [(filter (\<lambda>d. indexError orc d = None) (docsOf (docQueue s)), batchError orc)]\<rparr>,
              engineLog := engineLog s @ refusals (indexError orc) (docsOf (docQueue s)) @
                 (case batchError orc of Some err \<Rightarrow> [ErrorIndexingBatch err] | None \<Rightarrow> []),
              flusherNotified := notifyFlushers (rev (flushersOf (docQueue s))) None (flusherNotified s)\<rparr>))"
  using assms drainQueue_eq[of "docQueue s" "indexError orc" "[]" "[]" "[]"]
  by (simp add: indexBatch_def noOther_def)

lemma walLoop_eq:
  "QOther \<notin> set q \<Longrightarrow>
   \<exists>err1 file1. walLoop io q err fc fl n = (err1, file1, rev (flushersOf q) @ fl, [], False)"
  by (induction io q err fc fl n rule: walLoop.induct) (auto split: sum.splits option.splits)

lemma writeAheadLog_eq:
  assumes "noOther s"
  shows "\<exists>lg wal1. (\<forall>l \<in> set lg. \<not> isAnyAddError l) \<and>
     (writeAheadLog io s wal = (Returns (), s\<lparr>engineLog := engineLog s @ lg\<rparr>, wal1)
      \<or> writeAheadLog io s wal =
          (Returns (),
           s\<lparr>docQueue := [],
             flusherNotified := notifyFlushers (rev (flushersOf (docQueue s))) (Some IndexerClosing) (flusherNotified s),
             engineLog := engineLog s @ lg\<rparr>, wal1))"
proof (cases "createError io")
  case (Some err)
  then show ?thesis
    by (rule_tac x="(if wal \<noteq> None then [ErrorLogExists] else []) @ [ErrorOpeningLog err]" in exI)
       (auto simp: writeAheadLog_def isAnyAddError_def)
next
  case None
  obtain err1 file1 where w: "walLoop io (docQueue s) None [] [] 0 = (err1, file1, rev (flushersOf (docQueue s)) @ [], [], False)"
    using walLoop_eq[of "docQueue s" io None "[]" "[]" 0] assms by (auto simp: noOther_def)
  show ?thesis
    apply (rule_tac x="(if wal \<noteq> None then [ErrorLogExists] else []) @ (case err1 of Some e \<Rightarrow> [ErrorWritingLog e] | None \<Rightarrow> []) @ closeLog io" in exI)
    apply (rule_tac x="Some file1" in exI)
    using None w by (auto simp: writeAheadLog_def isAnyAddError_def closeLog_def split: option.splits)
qed


lemma handed_after_drain:
  "d \<in> set ds \<Longrightarrow>
   d \<in> set (filter (\<lambda>d. ix d = None) ds) \<or> list_ex (isAddError (ID d)) (refusals ix ds)"
  by (induction ds) (auto simp: refusals_def)

lemma indexBatch_handed:
  assumes "noOther s" and "handedToBackend s d \<or> QDoc d \<in> set (docQueue s)"
  shows "handedToBackend (snd (indexBatch orc s)) d"
proof (cases "docQueue s = []")
  case True
  then show ?thesis using assms by (simp add: indexBatch_eq)
next
  case False
  show ?thesis
  proof (cases "handedToBackend s d")
    case True
    then show ?thesis using False assms(1)
      by (auto simp: indexBatch_eq handedToBackend_def passedToBatch_def refusedByBatch_def)
  next
    case F2: False
    then have "d \<in> set (docsOf (docQueue s))" using assms(2) by (simp add: QDoc_docsOf)
    from handed_after_drain [OF this, of "indexError orc"] show ?thesis using False assms(1)
      by (auto simp: indexBatch_eq handedToBackend_def passedToBatch_def refusedByBatch_def)
  qed
qed

lemma indexBatch_frame:
  assumes "noOther s"
  shows "fst (indexBatch orc s) = Returns ()
     \<and> noOther (snd (indexBatch orc s))
     \<and> docQueue (snd (indexBatch orc s)) = []
     \<and> workerDone (snd (indexBatch orc s)) = workerDone s
     \<and> nextFlusher (snd (indexBatch orc s)) = nextFlusher s
     \<and> flushCount (snd (indexBatch orc s)) = flushCount s
     \<and> flusherNotified (snd (indexBatch orc s)) g =
         (if docQueue s \<noteq> [] \<and> QFlusher g \<in> set (docQueue s) then Some None else flusherNotified s g)"
  using assms
  by (auto simp: indexBatch_eq noOther_def notifyFlushers_apply QFlusher_flushersOf)

lemma indexBatch_inv:
  assumes "barrierInv f d s" and "\<not> workerDone s"
  shows "barrierInv f d (snd (indexBatch orc s))"
proof -
  have n: "noOther s" using assms(1) by (simp add: barrierInv_def)
  have h: "handedToBackend s d \<or> QDoc d \<in> set (docQueue s)"
    using assms by (auto simp: barrierInv_def)
  have "handedToBackend (snd (indexBatch orc s)) d"
    by (rule indexBatch_handed [OF n h])
  then show ?thesis using indexBatch_frame [OF n, of orc] by (simp add: barrierInv_def)
qed

lemma workerIteration_inv:
  assumes "barrierInv f d s" and "\<not> workerDone s"
  shows "barrierInv f d (snd (workerIteration orc sel s))
     \<and> workerDone (snd (workerIteration orc sel s)) = workerDone s
     \<and> (\<exists>c. fst (workerIteration orc sel s) = Returns c)"
proof -
  have n: "noOther s" using assms(1) by (simp add: barrierInv_def)
  obtain s1 where ib: "indexBatch orc s = (Returns (), s1)"
    using indexBatch_frame [OF n, of orc] by (metis prod.collapse)
  have i1: "barrierInv f d s1" using indexBatch_inv [OF assms, of orc] ib by simp
  have w1: "workerDone s1 = workerDone s" using indexBatch_frame [OF n, of orc] ib by simp
  show ?thesis
  proof (cases sel)
    case TimerC
    then show ?thesis using ib i1 w1
      by (auto simp: workerIteration_def barrierInv_def noOther_def handedToBackend_def
          passedToBatch_def refusedByBatch_def)
  next
    case (NotifierC force cont)
    then show ?thesis using ib i1 w1 assms
      by (auto simp: workerIteration_def Let_def)
  qed
qed

lemma handed_log_mono:
  "handedToBackend s d \<Longrightarrow> index s1 = index s \<Longrightarrow> engineLog s1 = engineLog s @ lg \<Longrightarrow>
   handedToBackend s1 d"
  by (auto simp: handedToBackend_def passedToBatch_def refusedByBatch_def)

lemma writeAheadLog_inv:
  assumes "barrierInv f d s"
  shows "barrierInv f d ((fst (snd (writeAheadLog io s wal)))\<lparr>workerDone := True\<rparr>)"
proof -
  have n: "noOther s" using assms(1) by (simp add: barrierInv_def)
  from writeAheadLog_eq [OF n, of io wal] obtain lg wal1 where
    w: "writeAheadLog io s wal = (Returns (), s\<lparr>engineLog := engineLog s @ lg\<rparr>, wal1)
      \<or> writeAheadLog io s wal =
          (Returns (),
           s\<lparr>docQueue := [],
             flusherNotified := notifyFlushers (rev (flushersOf (docQueue s))) (Some IndexerClosing) (flusherNotified s),
             engineLog := engineLog s @ lg\<rparr>, wal1)"
    by blast
  then show ?thesis
  proof
    assume "writeAheadLog io s wal = (Returns (), s\<lparr>engineLog := engineLog s @ lg\<rparr>, wal1)"
    then show ?thesis using assms
      by (auto simp: barrierInv_def noOther_def handedToBackend_def passedToBatch_def
          refusedByBatch_def)
  next
    assume "writeAheadLog io s wal =
          (Returns (),
           s\<lparr>docQueue := [],
             flusherNotified := notifyFlushers (rev (flushersOf (docQueue s))) (Some IndexerClosing) (flusherNotified s),
             engineLog := engineLog s @ lg\<rparr>, wal1)"
    then show ?thesis using assms
      by (auto simp: barrierInv_def noOther_def handedToBackend_def passedToBatch_def
          refusedByBatch_def notifyFlushers_apply split: if_splits)
  qed
qed

lemma recvNotifier_inv:
  "recvNotifier k s = Some (r, s1) \<Longrightarrow>
   barrierInv f d s1 = barrierInv f d s \<and> workerDone s1 = workerDone s"
  by (auto simp: recvNotifier_def barrierInv_def noOther_def handedToBackend_def
      passedToBatch_def refusedByBatch_def split: if_splits)

lemma step_inv:
  assumes "barrierInv f d (fst w)"
  shows "barrierInv f d (fst (step e w))"
proof (cases w)
  case (Pair s wal)
  then have i: "barrierInv f d s" using assms by simp
  show ?thesis
  proof (cases e)
    case (CallIndexDocument doc)
    then show ?thesis using i Pair
      by (auto simp: IndexDocument_def Let_def barrierInv_def noOther_def handedToBackend_def
          passedToBatch_def refusedByBatch_def)
  next
    case CallFlush
    then show ?thesis using i Pair
      by (auto simp: FlushSend_def Let_def barrierInv_def noOther_def handedToBackend_def
          passedToBatch_def refusedByBatch_def)
  next
    case (WorkerTimer orc)
    show ?thesis
    proof (cases "workerDone s")
      case True
      then show ?thesis using i Pair WorkerTimer by simp
    next
      case False
      from workerIteration_inv [OF i False, of orc TimerC] show ?thesis
        using Pair WorkerTimer False
        by (cases "workerIteration orc TimerC s") auto
    qed
  next
    case (WorkerNotifier k orc io)
    show ?thesis
    proof (cases "workerDone s")
      case True
      then show ?thesis using i Pair WorkerNotifier by simp
    next
      case False
      show ?thesis
      proof (cases "recvNotifier k s")
        case None
        then show ?thesis using i Pair WorkerNotifier False by simp
      next
        case (Some a)
        obtain force cont s1 where a: "a = ((force, cont), s1)" by (metis prod.collapse)
        have i1: "barrierInv f d s1" and d1: "\<not> workerDone s1"
          using recvNotifier_inv [of k s "(force, cont)" s1 f d] Some a i False by auto
        from workerIteration_inv [OF i1 d1, of orc "NotifierC force cont"]
        obtain c s2 where wi: "workerIteration orc (NotifierC force cont) s1 = (Returns c, s2)"
          and i2: "barrierInv f d s2"
          by (metis prod.collapse)
        show ?thesis
        proof (cases c)
          case True
          then show ?thesis using Pair WorkerNotifier False Some a wi i2
            by (simp add: workerAfterSelect_def)
        next
          case F3: False
          from writeAheadLog_inv [OF i2, of io wal] show ?thesis
            using Pair WorkerNotifier False Some a wi F3
            by (cases "writeAheadLog io s2 wal") (auto simp add: workerAfterSelect_def)
        qed
      qed
    qed
  next
    case (CallClose idxErr)
    then show ?thesis using i Pair
      by (auto simp: CloseSignal_def barrierInv_def noOther_def handedToBackend_def
          passedToBatch_def refusedByBatch_def)
  qed
qed

lemma run_inv: "barrierInv f d (fst w) \<Longrightarrow> barrierInv f d (fst (run es w))"
proof (induction es arbitrary: w)
  case Nil
  then show ?case by simp
next
  case (Cons e es)
  have "barrierInv f d (fst (step e w))" by (rule step_inv [OF Cons.prems])
  then show ?case using Cons.IH [of "step e w"] by simp
qed

lemma indexBatch_runInv:
  assumes "runInv s"
  shows "runInv (snd (indexBatch orc s)) \<and> fst (indexBatch orc s) = Returns ()"
proof -
  have n: "noOther s" using assms by (simp add: runInv_def)
  show ?thesis using assms indexBatch_frame [OF n, of orc]
    by (auto simp: runInv_def freshFlushers_def QFlusher_flushersOf split: if_splits)
qed

lemma workerIteration_runInv:
  assumes "runInv s"
  shows "runInv (snd (workerIteration orc sel s))
     \<and> (\<exists>c. fst (workerIteration orc sel s) = Returns c)"
proof -
  obtain s1 where ib: "indexBatch orc s = (Returns (), s1)" and i1: "runInv s1"
    using indexBatch_runInv [OF assms, of orc] by (metis prod.collapse)
  show ?thesis
  proof (cases sel)
    case TimerC
    then show ?thesis using ib i1
      by (auto simp: workerIteration_def runInv_def noOther_def freshFlushers_def)
  next
    case (NotifierC force cont)
    then show ?thesis using ib i1 assms by (auto simp: workerIteration_def Let_def)
  qed
qed

lemma writeAheadLog_runInv:
  assumes "runInv s"
  shows "runInv ((fst (snd (writeAheadLog io s wal)))\<lparr>workerDone := True\<rparr>)"
proof -
  have n: "noOther s" using assms by (simp add: runInv_def)
  from writeAheadLog_eq [OF n, of io wal] obtain lg wal1 where
    w: "writeAheadLog io s wal = (Returns (), s\<lparr>engineLog := engineLog s @ lg\<rparr>, wal1)
      \<or> writeAheadLog io s wal =
          (Returns (),
           s\<lparr>docQueue := [],
             flusherNotified := notifyFlushers (rev (flushersOf (docQueue s))) (Some IndexerClosing) (flusherNotified s),
             engineLog := engineLog s @ lg\<rparr>, wal1)"
    by blast
  then show ?thesis using assms
    by (auto simp: runInv_def noOther_def freshFlushers_def notifyFlushers_apply
        split: if_splits)
qed

lemma recvNotifier_runInv:
  "recvNotifier k s = Some (r, s1) \<Longrightarrow> runInv s1 = runInv s"
  by (auto simp: recvNotifier_def runInv_def noOther_def freshFlushers_def split: if_splits)

lemma step_runInv:
  assumes "runInv (fst w)"
  shows "runInv (fst (step e w))"
proof (cases w)
  case (Pair s wal)
  then have i: "runInv s" using assms by simp
  show ?thesis
  proof (cases e)
    case (CallIndexDocument doc)
    then show ?thesis using i Pair
      by (auto simp: IndexDocument_def Let_def runInv_def noOther_def freshFlushers_def
          flushersOf_append)
  next
    case CallFlush
    then show ?thesis using i Pair
      by (auto simp: FlushSend_def Let_def runInv_def noOther_def freshFlushers_def
          flushersOf_append less_Suc_eq)
  next
    case (WorkerTimer orc)
    from workerIteration_runInv [OF i, of orc TimerC] show ?thesis
      using Pair WorkerTimer i
      by (cases "workerIteration orc TimerC s") auto
  next
    case (WorkerNotifier k orc io)
    show ?thesis
    proof (cases "workerDone s \<or> recvNotifier k s = None")
      case True
      then show ?thesis using i Pair WorkerNotifier by auto
    next
      case False
      then obtain force cont s1 where a: "recvNotifier k s = Some ((force, cont), s1)"
        by (metis not_Some_eq prod.collapse)
      have i1: "runInv s1" using recvNotifier_runInv [OF a] i by simp
      from workerIteration_runInv [OF i1, of orc "NotifierC force cont"]
      obtain c s2 where wi: "workerIteration orc (NotifierC force cont) s1 = (Returns c, s2)"
        and i2: "runInv s2"
        by (metis prod.collapse)
      show ?thesis
      proof (cases c)
        case True
        then show ?thesis using Pair WorkerNotifier False a wi i2
          by (simp add: workerAfterSelect_def)
      next
        case F3: False
        from writeAheadLog_runInv [OF i2, of io wal] show ?thesis
          using Pair WorkerNotifier False a wi F3
          by (cases "writeAheadLog io s2 wal") (auto simp add: workerAfterSelect_def)
      qed
    qed
  next
    case (CallClose idxErr)
    then show ?thesis using i Pair
      by (auto simp: CloseSignal_def runInv_def noOther_def freshFlushers_def)
  qed
qed

lemma run_runInv: "runInv (fst w) \<Longrightarrow> runInv (fst (run es w))"
proof (induction es arbitrary: w)
  case Nil
  then show ?case by simp
next
  case (Cons e es)
  have "runInv (fst (step e w))" by (rule step_runInv [OF Cons.prems])
  then show ?case using Cons.IH [of "step e w"] by simp
qed

lemma runInv_newEngine: "runInv (newEngine path)"
  by (simp add: runInv_def noOther_def freshFlushers_def newEngine_def)

lemma docInv_barrier: "docInv d s \<Longrightarrow> flusherNotified s f \<noteq> Some None \<Longrightarrow> barrierInv f d s"
  by (simp add: docInv_def barrierInv_def)

lemma barrier_docInv: "barrierInv f d s \<Longrightarrow> docInv d s"
  by (simp add: docInv_def barrierInv_def)

lemma fresh_not_notified: "runInv s \<Longrightarrow> flusherNotified s (nextFlusher s) = None"
  by (auto simp: runInv_def freshFlushers_def)

lemma step_docInv:
  assumes "runInv (fst w)" and "docInv d (fst w)"
  shows "docInv d (fst (step e w))"
proof -
  have "flusherNotified (fst w) (nextFlusher (fst w)) \<noteq> Some None"
    using fresh_not_notified [OF assms(1)] by simp
  then have "barrierInv (nextFlusher (fst w)) d (fst w)"
    using assms(2) by (simp add: docInv_barrier)
  then have "barrierInv (nextFlusher (fst w)) d (fst (step e w))" by (rule step_inv)
  then show ?thesis by (rule barrier_docInv)
qed

lemma step_accept:
  assumes "runInv (fst w)"
  shows "docInv d (fst (step (CallIndexDocument d) w))"
  using assms
  by (cases w) (auto simp: IndexDocument_def Let_def docInv_def runInv_def noOther_def)

lemma run_docInv:
  "runInv (fst w) \<Longrightarrow> d \<in> set (acceptedDocs es) \<or> docInv d (fst w) \<Longrightarrow>
   docInv d (fst (run es w))"
proof (induction es arbitrary: w)
  case Nil
  then show ?case by simp
next
  case (Cons e es)
  have r: "runInv (fst (step e w))" by (rule step_runInv [OF Cons.prems(1)])
  have "d \<in> set (acceptedDocs es) \<or> docInv d (fst (step e w))"
  proof (cases "docInv d (fst w)")
    case True
    then show ?thesis using step_docInv [OF Cons.prems(1)] by simp
  next
    case False
    then have m: "d \<in> set (acceptedDocs (e # es))" using Cons.prems(2) by simp
    show ?thesis
    proof (cases "e = CallIndexDocument d")
      case True
      then show ?thesis using step_accept [OF Cons.prems(1), of d] by simp
    next
      case F2: False
      then have "d \<in> set (acceptedDocs es)" using m by (cases e) auto
      then show ?thesis by simp
    qed
  qed
  with r show ?case using Cons.IH [of "step e w"] by simp
qed

lemma run_append: "run (es1 @ es2) w = run es2 (run es1 w)"
  by (induction es1 arbitrary: w) auto

lemma flush_handed:
  assumes "d \<in> set (acceptedDocs evs1)"
    and "FlushReturn (fst (run (evs1 @ CallFlush # evs2) (newEngine path, wal)))
           (nextFlusher (fst (run evs1 (newEngine path, wal)))) = Some None"
  shows "handedToBackend (fst (run (evs1 @ CallFlush # evs2) (newEngine path, wal))) d"
proof -
  define w1 where "w1 = run evs1 (newEngine path, wal)"
  define f where "f = nextFlusher (fst w1)"
  have r1: "runInv (fst w1)"
    unfolding w1_def using run_runInv [of "(newEngine path, wal)" evs1] runInv_newEngine by simp
  have d1: "docInv d (fst w1)"
    unfolding w1_def using run_docInv [of "(newEngine path, wal)" d evs1] runInv_newEngine assms(1)
    by simp
  have n1: "flusherNotified (fst w1) f = None"
    unfolding f_def by (rule fresh_not_notified [OF r1])
  have d2: "docInv d (fst (step CallFlush w1))" by (rule step_docInv [OF r1 d1])
  have n2: "flusherNotified (fst (step CallFlush w1)) f = None"
    using n1 by (cases w1) (auto simp: FlushSend_def Let_def)
  have "barrierInv f d (fst (step CallFlush w1))"
    using d2 n2 by (simp add: docInv_barrier)
  then have "barrierInv f d (fst (run evs2 (step CallFlush w1)))" by (rule run_inv)
  moreover have "run (evs1 @ CallFlush # evs2) (newEngine path, wal) = run evs2 (step CallFlush w1)"
    by (simp add: run_append w1_def)
  ultimately show ?thesis
    using assms(2) by (simp add: barrierInv_def FlushReturn_def f_def w1_def)
qed

lemma refusals_ok: "\<forall>d. ix d = None \<Longrightarrow> refusals ix ds = []"
  by (simp add: refusals_def)

lemma indexBatch_noFailure:
  assumes "noOther s" and "noFailure s" and "oracleOk orc"
  shows "noFailure (snd (indexBatch orc s))"
  using assms by (auto simp: indexBatch_eq noFailure_def oracleOk_def refusals_ok)

lemma workerIteration_noFailure:
  assumes "noOther s" and "noFailure s" and "oracleOk orc"
  shows "noFailure (snd (workerIteration orc sel s))"
proof -
  obtain s1 where ib: "indexBatch orc s = (Returns (), s1)"
    using indexBatch_frame [OF assms(1), of orc] by (metis prod.collapse)
  have "noFailure s1" using indexBatch_noFailure [OF assms] ib by simp
  then show ?thesis using ib assms(2)
    by (cases sel) (auto simp: workerIteration_def Let_def noFailure_def)
qed

lemma writeAheadLog_noFailure:
  assumes "noOther s" and "noFailure s"
  shows "noFailure ((fst (snd (writeAheadLog io s wal)))\<lparr>workerDone := True\<rparr>)"
proof -
  from writeAheadLog_eq [OF assms(1), of io wal] obtain lg wal1 where
    l: "\<forall>l \<in> set lg. \<not> isAnyAddError l" and
    w: "writeAheadLog io s wal = (Returns (), s\<lparr>engineLog := engineLog s @ lg\<rparr>, wal1)
      \<or> writeAheadLog io s wal =
          (Returns (),
           s\<lparr>docQueue := [],
             flusherNotified := notifyFlushers (rev (flushersOf (docQueue s))) (Some IndexerClosing) (flusherNotified s),
             engineLog := engineLog s @ lg\<rparr>, wal1)"
    by blast
  then show ?thesis using assms(2)
    by (auto simp: noFailure_def list_ex_iff)
qed

lemma recvNotifier_noFailure:
  "recvNotifier k s = Some (r, s1) \<Longrightarrow> noFailure s1 = noFailure s \<and> noOther s1 = noOther s"
  by (auto simp: recvNotifier_def noFailure_def noOther_def split: if_splits)

lemma step_noFailure:
  assumes "runInv (fst w)" and "noFailure (fst w)" and "backendOk e"
  shows "noFailure (fst (step e w))"
proof (cases w)
  case (Pair s wal)
  then have i: "noFailure s" and n: "noOther s" using assms by (simp_all add: runInv_def)
  show ?thesis
  proof (cases e)
    case (CallIndexDocument doc)
    then show ?thesis using i Pair by (auto simp: IndexDocument_def Let_def noFailure_def)
  next
    case CallFlush
    then show ?thesis using i Pair by (auto simp: FlushSend_def Let_def noFailure_def)
  next
    case (WorkerTimer orc)
    then have "oracleOk orc" using assms(3) by simp
    from workerIteration_noFailure [OF n i this, of TimerC] show ?thesis
      using Pair WorkerTimer i
      by (cases "workerIteration orc TimerC s") (auto simp: noFailure_def split: outcome.splits)
  next
    case (WorkerNotifier k orc io)
    then have ok: "oracleOk orc" using assms(3) by simp
    show ?thesis
    proof (cases "workerDone s \<or> recvNotifier k s = None")
      case True
      then show ?thesis using i Pair WorkerNotifier by auto
    next
      case False
      then obtain force cont s1 where a: "recvNotifier k s = Some ((force, cont), s1)"
        by (metis not_Some_eq prod.collapse)
      have i1: "noFailure s1" and n1: "noOther s1"
        using recvNotifier_noFailure [OF a] i n by simp_all
      have r1: "runInv s1" using recvNotifier_runInv [OF a] assms(1) Pair by simp
      from workerIteration_runInv [OF r1, of orc "NotifierC force cont"]
      obtain c s2 where wi: "workerIteration orc (NotifierC force cont) s1 = (Returns c, s2)"
        and r2: "runInv s2"
        by (metis prod.collapse)
      have i2: "noFailure s2"
        using workerIteration_noFailure [OF n1 i1 ok, of "NotifierC force cont"] wi by simp
      have n2: "noOther s2" using r2 by (simp add: runInv_def)
      show ?thesis
      proof (cases c)
        case True
        then show ?thesis using Pair WorkerNotifier False a wi i2
          by (simp add: workerAfterSelect_def)
      next
        case F3: False
        from writeAheadLog_noFailure [OF n2 i2, of io wal] show ?thesis
          using Pair WorkerNotifier False a wi F3
          by (cases "writeAheadLog io s2 wal") (auto simp add: workerAfterSelect_def)
      qed
    qed
  next
    case (CallClose idxErr)
    then show ?thesis using i Pair by (auto simp: CloseSignal_def noFailure_def)
  qed
qed

lemma run_noFailure:
  "runInv (fst w) \<Longrightarrow> noFailure (fst w) \<Longrightarrow> list_all backendOk es \<Longrightarrow>
   noFailure (fst (run es w))"
proof (induction es arbitrary: w)
  case Nil
  then show ?case by simp
next
  case (Cons e es)
  have r: "runInv (fst (step e w))" by (rule step_runInv [OF Cons.prems(1)])
  have f: "noFailure (fst (step e w))"
    using step_noFailure [OF Cons.prems(1,2)] Cons.prems(3) by simp
  show ?case using Cons.IH [OF r f] Cons.prems(3) by simp
qed

lemma noFailure_newEngine: "noFailure (newEngine path)"
  by (simp add: noFailure_def newEngine_def)

lemma isAddError_any: "isAddError i l \<Longrightarrow> isAnyAddError l"
  by (cases l) (simp_all add: isAnyAddError_def)

lemma handed_committed:
  assumes "noFailure s" and "handedToBackend s d"
  shows "d \<in> set (committedDocs (index s))"
proof -
  have "\<not> refusedByBatch s d"
  proof
    assume "refusedByBatch s d"
    then obtain l where "l \<in> set (engineLog s)" "isAddError (ID d) l"
      by (auto simp: refusedByBatch_def list_ex_iff)
    then have "list_ex isAnyAddError (engineLog s)"
      using isAddError_any [of "ID d" l] by (auto simp: list_ex_iff)
    then show False using assms(1) by (simp add: noFailure_def)
  qed
  then have "passedToBatch s d" using assms(2) by (simp add: handedToBackend_def)
  then show ?thesis using assms(1)
    by (auto simp: passedToBatch_def committedDocs_def noFailure_def list_ex_iff list_all_iff)
qed

text \<open>
  Claim C1, as the code has it. Take any run of a shard from its construction in which a
  call of \<open>Flush\<close> is made after the events \<open>evs1\<close> and is followed by the events
  \<open>evs2\<close>. If that call's flusher has been notified with \<open>nil\<close> (\<open>Flush\<close> returns
  \<open>nil\<close>), then every document given to \<open>IndexDocument\<close> during \<open>evs1\<close> has been
  taken from the queue by \<open>indexBatch\<close> and handed to the back end: it is in a batch that
  was passed to \<open>Batch\<close>, or \<open>batch.Index\<close> refused it (which is logged). If no call
  of the back end failed during the run, the document is among the committed ones.
\<close>

theorem flush_barrier:
  "doc \<in> set (acceptedDocs evs1)
     \<and> FlushReturn (fst (run (evs1 @ CallFlush # evs2) (newEngine path, wal)))
           (nextFlusher (fst (run evs1 (newEngine path, wal)))) = Some None
   \<longrightarrow> handedToBackend (fst (run (evs1 @ CallFlush # evs2) (newEngine path, wal))) doc
     \<and> (list_all backendOk (evs1 @ CallFlush # evs2) \<longrightarrow>
          doc \<in> set (committedDocs (index (fst (run (evs1 @ CallFlush # evs2)
                                                   (newEngine path, wal))))))"
proof (intro impI conjI)
  assume a: "doc \<in> set (acceptedDocs evs1)
     \<and> FlushReturn (fst (run (evs1 @ CallFlush # evs2) (newEngine path, wal)))
           (nextFlusher (fst (run evs1 (newEngine path, wal)))) = Some None"
  show h: "handedToBackend (fst (run (evs1 @ CallFlush # evs2) (newEngine path, wal))) doc"
    using a flush_handed [of doc evs1 evs2 path wal] by blast
  assume ok: "list_all backendOk (evs1 @ CallFlush # evs2)"
  have "noFailure (fst (run (evs1 @ CallFlush # evs2) (newEngine path, wal)))"
    using run_noFailure [of "(newEngine path, wal)" "evs1 @ CallFlush # evs2"]
      runInv_newEngine [of path] noFailure_newEngine [of path] ok
    by simp
  then show "doc \<in> set (committedDocs (index (fst (run (evs1 @ CallFlush # evs2)
                                                   (newEngine path, wal)))))"
    using h by (rule handed_committed)
qed

theorem flush_barrier_witness:
  "FlushReturn
     (fst (run ([CallIndexDocument exampleDoc, WorkerNotifier 0 okOracle exampleWalIO]
                @ CallFlush # [WorkerNotifier 0 okOracle exampleWalIO])
            (newEngine ''/var/idx/s1'', None))) 0 = Some None
   \<and> exampleDoc \<in> set (committedDocs (index (fst
       (run ([CallIndexDocument exampleDoc, WorkerNotifier 0 okOracle exampleWalIO]
             @ CallFlush # [WorkerNotifier 0 okOracle exampleWalIO])
          (newEngine ''/var/idx/s1'', None)))))"
proof -
  have n: "nextFlusher (fst (run [CallIndexDocument exampleDoc,
              WorkerNotifier 0 okOracle exampleWalIO] (newEngine ''/var/idx/s1'', None))) = 0"
    by (simp add: newEngine_def IndexDocument_def recvNotifier_def workerAfterSelect_def
        workerIteration_def Let_def)
  have f: "FlushReturn
     (fst (run ([CallIndexDocument exampleDoc, WorkerNotifier 0 okOracle exampleWalIO]
                @ CallFlush # [WorkerNotifier 0 okOracle exampleWalIO])
            (newEngine ''/var/idx/s1'', None))) 0 = Some None"
    by (simp add: newEngine_def IndexDocument_def recvNotifier_def workerAfterSelect_def
        workerIteration_def Let_def FlushSend_def FlushReturn_def indexBatch_def
        notifyFlushers_def okOracle_def)
  have ok: "list_all backendOk
     ([CallIndexDocument exampleDoc, WorkerNotifier 0 okOracle exampleWalIO]
      @ CallFlush # [WorkerNotifier 0 okOracle exampleWalIO])"
    by (simp add: oracleOk_def okOracle_def)
  show ?thesis
    using flush_barrier [where doc = exampleDoc
        and ?evs1.0 = "[CallIndexDocument exampleDoc, WorkerNotifier 0 okOracle exampleWalIO]"
        and ?evs2.0 = "[WorkerNotifier 0 okOracle exampleWalIO]"
        and path = "''/var/idx/s1''" and wal = None] n f ok
    by simp
qed

text \<open>
  The claim as the spec words it fails when the commit fails: the document is accepted,
  \<open>IndexDocument\<close> has returned, \<open>Flush\<close> is called, the worker drains the queue and
  \<open>Batch\<close> returns an error, which is logged; the flusher is notified with \<open>nil\<close> all
  the same, and the document is not committed.
\<close>

theorem flush_barrier_counterexample:
  "exampleDoc \<in> set (acceptedDocs
       [CallIndexDocument exampleDoc, WorkerNotifier 0 okOracle exampleWalIO])
   \<and> FlushReturn
       (fst (run ([CallIndexDocument exampleDoc, WorkerNotifier 0 okOracle exampleWalIO]
                  @ CallFlush # [WorkerNotifier 0 failingOracle exampleWalIO])
              (newEngine ''/var/idx/s1'', None)))
       (nextFlusher (fst (run [CallIndexDocument exampleDoc,
          WorkerNotifier 0 okOracle exampleWalIO] (newEngine ''/var/idx/s1'', None)))) = Some None
   \<and> exampleDoc \<notin> set (committedDocs (index (fst
       (run ([CallIndexDocument exampleDoc, WorkerNotifier 0 okOracle exampleWalIO]
             @ CallFlush # [WorkerNotifier 0 failingOracle exampleWalIO])
          (newEngine ''/var/idx/s1'', None)))))
   \<and> engineLog (fst
       (run ([CallIndexDocument exampleDoc, WorkerNotifier 0 okOracle exampleWalIO]
             @ CallFlush # [WorkerNotifier 0 failingOracle exampleWalIO])
          (newEngine ''/var/idx/s1'', None))) = [ErrorIndexingBatch (External ''commit failed'')]"
  by (simp add: newEngine_def IndexDocument_def recvNotifier_def workerAfterSelect_def
      workerIteration_def Let_def FlushSend_def FlushReturn_def indexBatch_def
      notifyFlushers_def okOracle_def failingOracle_def committedDocs_def)

end
